theory Spec2Isabelle
  imports Complex_Main
begin

section \<open>Values, errors and the shared state of litserve/server.py\<close>

text \<open>
  Python values that travel through the server. A float is modelled by the real number it
  denotes; the arithmetic that the examples perform (squares of 4.0 and 5.0) is exact on
  binary floating point numbers. A numpy array is an \<open>ndarray\<close>: a 0-dimensional array
  is \<open>Scalar\<close>, an array of higher dimension lists its sub-arrays along the first axis.
\<close>

datatype ndarray = Scalar real | NDArr "ndarray list"

datatype pyval =
    PNone
  | PBool bool
  | PInt int
  | PFloat real
  | PStr string
  | PList "pyval list"
  | PDict "(string \<times> pyval) list"
  | PArray ndarray

text \<open>Exceptions of the source, as values. \<open>HTTPException\<close> carries status code and detail.\<close>

datatype error =
    HTTPException int string
  | KeyError
  | TypeError
  | AttributeError
  | ValidationError
  | IndexError
  | BrokenPipeError
  | Empty
  | UserError string

text \<open>
  Modelled from the spec: the request shape of the chat-completion endpoint
  (litserve.schemas.openai.ChatCompletionRequest is not in src), with the fields that
  section 6 of the specification lists and server.py reads.
\<close>

record chat_completion_request =
  req_model :: "string option"
  req_messages :: pyval
  req_n :: int
  req_stream :: bool
  req_stop :: "pyval option"
  req_frequency_penalty :: real
  req_presence_penalty :: real
  req_max_tokens :: "int option"
  req_top_p :: real

text \<open>
  What a Request Table entry holds as its payload: the JSON body of /predict, or the
  request object of /v1/chat/completions.
\<close>

datatype payload = RequestData pyval | ChatRequest chat_completion_request

text \<open>
  A request identifier is the value of one \<open>uuid.uuid4()\<close> call. A connection object is
  identified by the index of the \<open>Pipe()\<close> call that created it: both ends of one pair
  carry that index, the code sends only on the first end (\<open>pipe_s\<close>) and polls and
  receives only on the second (\<open>pipe_r\<close>). A channel is \<open>Open\<close> with the messages sent
  and not yet received, or \<open>Closed\<close> when its receiving end is gone, so that a send fails
  with BrokenPipeError.
\<close>

type_synonym uid = nat
type_synonym conn = nat

datatype channel = Open "pyval list" | Closed

datatype device = DevStr string | DevGroup "string list"

text \<open>
  The invocations a worker makes on the user's API object and on reply senders, in the
  order they happen. The log is not a variable of the source: it records the calls that
  the loops make, so that statements about which stage ran on which value can be made.
\<close>

datatype call =
    CSetup device
  | CDecode payload
  | CBatch "pyval list"
  | CPredict pyval
  | CUnbatch pyval
  | CEncode pyval
  | CSend conn pyval

text \<open>
  The state that server.py keeps: \<open>self.pipe_pool\<close> and \<open>self.max_pool_size\<close> of
  LitServer, \<open>app.request_queue\<close> and \<open>app.request_buffer\<close> of lifespan, the channels
  behind the connection objects, the index of the next \<open>Pipe()\<close> call, and the call log.
\<close>

record state =
  pipe_pool :: "(conn \<times> conn) list"
  max_pool_size :: nat
  next_pipe :: nat
  request_queue :: "uid list"
  request_buffer :: "uid \<rightharpoonup> (payload \<times> conn)"
  pipes :: "conn \<Rightarrow> channel"
  call_log :: "call list"

definition log_call :: "call \<Rightarrow> state \<Rightarrow> state" where
  "log_call c s = s\<lparr>call_log := call_log s @ [c]\<rparr>"

section \<open>Request Table and Request Queue\<close>

text \<open>\<open>request_buffer.pop(uid)\<close>: the entry and the table without it, or KeyError.\<close>

definition buffer_pop :: "uid \<Rightarrow> state \<Rightarrow> error + ((payload \<times> conn) \<times> state)" where
  "buffer_pop uid s =
     (case request_buffer s uid of
        None \<Rightarrow> Inl KeyError
      | Some entry \<Rightarrow> Inr (entry, s\<lparr>request_buffer := (request_buffer s)(uid := None)\<rparr>))"

text \<open>
  \<open>cleanup(request_buffer, uid)\<close>:
  \<^verbatim>\<open>
    with contextlib.suppress(KeyError):
        request_buffer.pop(uid)
  \<close>
  KeyError is the only exception that \<open>buffer_pop\<close> raises.
\<close>

definition cleanup :: "uid \<Rightarrow> state \<Rightarrow> state" where
  "cleanup uid s =
     (case buffer_pop uid s of
        Inl _ \<Rightarrow> s
      | Inr (_, s') \<Rightarrow> s')"

text \<open>\<open>request_buffer[uid] = (payload, pipe_s)\<close>.\<close>

definition buffer_insert :: "uid \<Rightarrow> payload \<Rightarrow> conn \<Rightarrow> state \<Rightarrow> state" where
  "buffer_insert uid x pipe_s s =
     s\<lparr>request_buffer := (request_buffer s)(uid \<mapsto> (x, pipe_s))\<rparr>"

text \<open>
  \<open>request_queue.put(uid)\<close> and \<open>request_queue.get(timeout=...)\<close>: the queue is first in,
  first out; a get that finds nothing within its timeout raises Empty.
\<close>

definition queue_put :: "uid \<Rightarrow> state \<Rightarrow> state" where
  "queue_put uid s = s\<lparr>request_queue := request_queue s @ [uid]\<rparr>"

definition queue_get :: "state \<Rightarrow> error + (uid \<times> state)" where
  "queue_get s =
     (case request_queue s of
        [] \<Rightarrow> Inl Empty
      | uid # rest \<Rightarrow> Inr (uid, s\<lparr>request_queue := rest\<rparr>))"

text \<open>
  A caller of the table's take: a worker's \<open>pop\<close> (which reports what it found) or the
  cleanup step. \<open>run_takes\<close> performs a sequence of them and lists what each received.
\<close>

datatype taker = WorkerPop uid | Cleanup uid

fun take_uid :: "taker \<Rightarrow> uid" where
  "take_uid (WorkerPop u) = u"
| "take_uid (Cleanup u) = u"

definition take_step :: "taker \<Rightarrow> state \<Rightarrow> (payload \<times> conn) option \<times> state" where
  "take_step t s =
     (case t of
        WorkerPop u \<Rightarrow>
          (case buffer_pop u s of Inl _ \<Rightarrow> (None, s) | Inr (entry, s') \<Rightarrow> (Some entry, s'))
      | Cleanup u \<Rightarrow> (request_buffer s u, cleanup u s))"

fun run_takes :: "taker list \<Rightarrow> state \<Rightarrow> (payload \<times> conn) option list \<times> state" where
  "run_takes [] s = ([], s)"
| "run_takes (t # ts) s =
     (let (r, s') = take_step t s; (rs, s'') = run_takes ts s' in (r # rs, s''))"

section \<open>Channels and the Channel Pool\<close>

text \<open>
  \<open>pipe_s.send(v)\<close> appends to the channel, or raises BrokenPipeError when the receiving
  end is gone. \<open>pipe_r.poll(timeout)\<close> tells whether a message is there by the deadline, and
  \<open>pipe_r.recv()\<close> takes the oldest message.
\<close>

definition send :: "conn \<Rightarrow> pyval \<Rightarrow> state \<Rightarrow> error + state" where
  "send pipe_s v s =
     (case pipes s pipe_s of
        Closed \<Rightarrow> Inl BrokenPipeError
      | Open msgs \<Rightarrow> Inr (s\<lparr>pipes := (pipes s)(pipe_s := Open (msgs @ [v]))\<rparr>))"

text \<open>
  \<^verbatim>\<open>
    with contextlib.suppress(BrokenPipeError):
        pipe_s.send(y_enc)
  \<close>
  The attempt is entered in the call log whether or not it succeeds.
\<close>

definition send_suppress :: "conn \<Rightarrow> pyval \<Rightarrow> state \<Rightarrow> state" where
  "send_suppress pipe_s y_enc s =
     (case send pipe_s y_enc (log_call (CSend pipe_s y_enc) s) of
        Inl _ \<Rightarrow> log_call (CSend pipe_s y_enc) s
      | Inr s' \<Rightarrow> s')"

definition poll :: "conn \<Rightarrow> state \<Rightarrow> bool" where
  "poll pipe_r s = (case pipes s pipe_r of Open (v # rest) \<Rightarrow> True | _ \<Rightarrow> False)"

text \<open>\<open>Pipe()\<close>: a fresh pair of connection objects over an empty channel.\<close>

definition Pipe :: "state \<Rightarrow> (conn \<times> conn) \<times> state" where
  "Pipe s =
     ((next_pipe s, next_pipe s),
      s\<lparr>next_pipe := Suc (next_pipe s), pipes := (pipes s)(next_pipe s := Open [])\<rparr>)"

text \<open>
  \<^verbatim>\<open>
    def new_pipe(self):
        try:
            pipe_s, pipe_r = self.pipe_pool.pop()
        except IndexError:
            pipe_s, pipe_r = Pipe()
        return pipe_s, pipe_r
  \<close>
  \<open>list.pop()\<close> removes and returns the last element.
\<close>

definition new_pipe :: "state \<Rightarrow> (conn \<times> conn) \<times> state" where
  "new_pipe s =
     (if pipe_pool s = [] then Pipe s
      else (last (pipe_pool s), s\<lparr>pipe_pool := butlast (pipe_pool s)\<rparr>))"

text \<open>
  \<^verbatim>\<open>
    def dispose_pipe(self, pipe_s, pipe_r):
        if len(self.pipe_pool) > self.max_pool_size:
            return
        self.pipe_pool.append(pipe_s, pipe_r)
  \<close>
  \<open>list.append\<close> takes exactly one argument: called with two, it raises TypeError and
  leaves the list as it was.
\<close>

definition dispose_pipe :: "conn \<Rightarrow> conn \<Rightarrow> state \<Rightarrow> error + state" where
  "dispose_pipe pipe_s pipe_r s =
     (if length (pipe_pool s) > max_pool_size s then Inr s
      else Inl TypeError)"

text \<open>
  The state after \<open>LitServer.__init__\<close> and the start of lifespan:
  \<^verbatim>\<open>
    initial_pool_size = 100
    self.max_pool_size = 1000
    self.pipe_pool = [Pipe() for _ in range(initial_pool_size)]
    app.request_queue = Queue()
    app.request_buffer = manager.dict()
  \<close>
\<close>

definition initial_pool_size :: nat where
  "initial_pool_size = 100"

definition initial_state :: state where
  "initial_state =
     \<lparr>pipe_pool = map (\<lambda>i. (i, i)) [0..<initial_pool_size],
      max_pool_size = 1000,
      next_pipe = initial_pool_size,
      request_queue = [],
      request_buffer = Map.empty,
      pipes = (\<lambda>c. Open []),
      call_log = []\<rparr>"

text \<open>An operation on the Channel Pool, and a sequence of them; a raised TypeError is
  caught by the caller of the sequence and the pool stays as the failing call left it.\<close>

datatype pool_op = Acquire | Release conn conn

definition pool_step :: "pool_op \<Rightarrow> state \<Rightarrow> state" where
  "pool_step op s =
     (case op of
        Acquire \<Rightarrow> snd (new_pipe s)
      | Release pipe_s pipe_r \<Rightarrow>
          (case dispose_pipe pipe_s pipe_r s of Inl _ \<Rightarrow> s | Inr s' \<Rightarrow> s'))"

section \<open>The user's API object and the worker loops\<close>

text \<open>
  The stages that a worker invokes on the user's LitAPI object. \<open>'m\<close> is the type of the
  object's attributes (\<open>self\<close>); setup returns the object with its attributes set, and
  every stage may raise.
\<close>

record 'm lit_api =
  api_setup :: "device \<Rightarrow> 'm \<Rightarrow> error + 'm"
  api_decode_request :: "'m \<Rightarrow> payload \<Rightarrow> error + pyval"
  api_batch :: "'m \<Rightarrow> pyval list \<Rightarrow> error + pyval"
  api_predict :: "'m \<Rightarrow> pyval \<Rightarrow> error + pyval"
  api_unbatch :: "'m \<Rightarrow> pyval \<Rightarrow> error + pyval list"
  api_encode_response :: "'m \<Rightarrow> pyval \<Rightarrow> error + pyval"

text \<open>
  One pass through the body of \<open>while True\<close> in single_loop. \<open>Inr\<close> is the state at the
  end of the pass (also after a \<open>continue\<close>); \<open>Inl\<close> is an exception of a user stage, which
  nothing catches and which ends the loop.
  \<^verbatim>\<open>
        try:
            uid = request_queue.get(timeout=1.0)
            try:
                x_enc, pipe_s = request_buffer.pop(uid)
            except KeyError:
                continue
        except (Empty, ValueError):
            continue

        x = lit_api.decode_request(x_enc)
        y = lit_api.predict(x)
        y_enc = lit_api.encode_response(y)

        with contextlib.suppress(BrokenPipeError):
            pipe_s.send(y_enc)
  \<close>
\<close>

definition single_loop_body :: "'m lit_api \<Rightarrow> 'm \<Rightarrow> state \<Rightarrow> error + state" where
  "single_loop_body lit_api self s =
     (case queue_get s of
        Inl _ \<Rightarrow> Inr s
      | Inr (uid, s1) \<Rightarrow>
          (case buffer_pop uid s1 of
             Inl _ \<Rightarrow> Inr s1
           | Inr ((x_enc, pipe_s), s2) \<Rightarrow>
               (case api_decode_request lit_api self x_enc of
                  Inl e \<Rightarrow> Inl e
                | Inr x \<Rightarrow>
                    (case api_predict lit_api self x of
                       Inl e \<Rightarrow> Inl e
                     | Inr y \<Rightarrow>
                         (case api_encode_response lit_api self y of
                            Inl e \<Rightarrow> Inl e
                          | Inr y_enc \<Rightarrow>
                              Inr (send_suppress pipe_s y_enc
                                (log_call (CEncode y)
                                  (log_call (CPredict x)
                                    (log_call (CDecode x_enc) s2)))))))))"

text \<open>The loop never returns; \<open>single_loop\<close> runs its first \<open>fuel\<close> passes.\<close>

fun single_loop :: "'m lit_api \<Rightarrow> 'm \<Rightarrow> nat \<Rightarrow> state \<Rightarrow> error + state" where
  "single_loop lit_api self 0 s = Inr s"
| "single_loop lit_api self (Suc fuel) s =
     (case single_loop_body lit_api self s of
        Inl e \<Rightarrow> Inl e
      | Inr s' \<Rightarrow> single_loop lit_api self fuel s')"

text \<open>
  The collection loop of batched_loop, with \<open>k\<close> rounds of \<open>range(max_batch_size)\<close> left:
  \<^verbatim>\<open>
        for _ in range(max_batch_size):
            try:
                uid = request_queue.get(timeout=0.01)
                try:
                    x_enc, pipe_s = request_buffer.pop(uid)
                except KeyError:
                    continue
            except (Empty, ValueError):
                break

            x = lit_api.decode_request(x_enc)

            inputs.append(x)
            pipes.append(pipe_s)
  \<close>
\<close>

fun collect_batch ::
  "'m lit_api \<Rightarrow> 'm \<Rightarrow> nat \<Rightarrow> pyval list \<Rightarrow> conn list \<Rightarrow> state \<Rightarrow>
   error + (pyval list \<times> conn list \<times> state)" where
  "collect_batch lit_api self 0 inputs senders s = Inr (inputs, senders, s)"
| "collect_batch lit_api self (Suc k) inputs senders s =
     (case queue_get s of
        Inl _ \<Rightarrow> Inr (inputs, senders, s)
      | Inr (uid, s1) \<Rightarrow>
          (case buffer_pop uid s1 of
             Inl _ \<Rightarrow> collect_batch lit_api self k inputs senders s1
           | Inr ((x_enc, pipe_s), s2) \<Rightarrow>
               (case api_decode_request lit_api self x_enc of
                  Inl e \<Rightarrow> Inl e
                | Inr x \<Rightarrow>
                    collect_batch lit_api self k (inputs @ [x]) (senders @ [pipe_s])
                      (log_call (CDecode x_enc) s2))))"

text \<open>
  \<^verbatim>\<open>
        for pipe_s, y in zip(pipes, outputs):
            y_enc = lit_api.encode_response(y)

            with contextlib.suppress(BrokenPipeError):
                pipe_s.send(y_enc)
  \<close>
\<close>

fun send_outputs :: "'m lit_api \<Rightarrow> 'm \<Rightarrow> (conn \<times> pyval) list \<Rightarrow> state \<Rightarrow> error + state" where
  "send_outputs lit_api self [] s = Inr s"
| "send_outputs lit_api self ((pipe_s, y) # rest) s =
     (case api_encode_response lit_api self y of
        Inl e \<Rightarrow> Inl e
      | Inr y_enc \<Rightarrow>
          send_outputs lit_api self rest (send_suppress pipe_s y_enc (log_call (CEncode y) s)))"

text \<open>
  One pass through the body of \<open>while True\<close> in batched_loop: collect, then
  \<^verbatim>\<open>
        if not inputs:
            continue

        x = lit_api.batch(inputs)
        y = lit_api.predict(x)

        outputs = lit_api.unbatch(y)
  \<close>
  and the sends. \<open>range(max_batch_size)\<close> is empty for a size below one.
\<close>

definition batched_loop_body :: "'m lit_api \<Rightarrow> 'm \<Rightarrow> int \<Rightarrow> state \<Rightarrow> error + state" where
  "batched_loop_body lit_api self max_batch_size s =
     (case collect_batch lit_api self (nat max_batch_size) [] [] s of
        Inl e \<Rightarrow> Inl e
      | Inr (inputs, senders, s1) \<Rightarrow>
          if inputs = [] then Inr s1
          else
            (case api_batch lit_api self inputs of
               Inl e \<Rightarrow> Inl e
             | Inr x \<Rightarrow>
                 (case api_predict lit_api self x of
                    Inl e \<Rightarrow> Inl e
                  | Inr y \<Rightarrow>
                      (case api_unbatch lit_api self y of
                         Inl e \<Rightarrow> Inl e
                       | Inr outputs \<Rightarrow>
                           send_outputs lit_api self (zip senders outputs)
                             (log_call (CUnbatch y)
                               (log_call (CPredict x)
                                 (log_call (CBatch inputs) s1)))))))"

fun batched_loop :: "'m lit_api \<Rightarrow> 'm \<Rightarrow> int \<Rightarrow> nat \<Rightarrow> state \<Rightarrow> error + state" where
  "batched_loop lit_api self max_batch_size 0 s = Inr s"
| "batched_loop lit_api self max_batch_size (Suc fuel) s =
     (case batched_loop_body lit_api self max_batch_size s of
        Inl e \<Rightarrow> Inl e
      | Inr s' \<Rightarrow> batched_loop lit_api self max_batch_size fuel s')"

text \<open>
  \<^verbatim>\<open>
    def inference_worker(lit_api, device, worker_id, request_queue, request_buffer, max_batch_size):
        lit_api.setup(device=device)

        if max_batch_size > 1:
            batched_loop(lit_api, device, worker_id, request_queue, request_buffer, max_batch_size)
        else:
            single_loop(lit_api, device, worker_id, request_queue, request_buffer)
  \<close>
  run for the first \<open>fuel\<close> passes of its loop.
\<close>

definition inference_worker ::
  "'m lit_api \<Rightarrow> 'm \<Rightarrow> device \<Rightarrow> nat \<Rightarrow> int \<Rightarrow> nat \<Rightarrow> state \<Rightarrow> error + state" where
  "inference_worker lit_api self dev worker_id max_batch_size fuel s =
     (case api_setup lit_api dev self of
        Inl e \<Rightarrow> Inl e
      | Inr self' \<Rightarrow>
          if max_batch_size > 1
          then batched_loop lit_api self' max_batch_size fuel (log_call (CSetup dev) s)
          else single_loop lit_api self' fuel (log_call (CSetup dev) s))"

section \<open>The example APIs\<close>

text \<open>
  \<open>x ** 2\<close> on a number or, element by element, on a numpy array; TypeError on a value
  that has no power.
\<close>

fun nd_square :: "ndarray \<Rightarrow> ndarray" where
  "nd_square (Scalar r) = Scalar (r ^ 2)"
| "nd_square (NDArr xs) = NDArr (map nd_square xs)"

definition py_square :: "pyval \<Rightarrow> error + pyval" where
  "py_square x =
     (case x of
        PInt i \<Rightarrow> Inr (PInt (i ^ 2))
      | PFloat r \<Rightarrow> Inr (PFloat (r ^ 2))
      | PBool b \<Rightarrow> Inr (PInt (if b then 1 else 0))
      | PArray a \<Rightarrow> Inr (PArray (nd_square a))
      | _ \<Rightarrow> Inl TypeError)"

text \<open>\<open>request["input"]\<close> on the payload of a table entry.\<close>

definition request_input :: "payload \<Rightarrow> error + pyval" where
  "request_input request =
     (case request of
        RequestData (PDict kv) \<Rightarrow>
          (case map_of kv ''input'' of None \<Rightarrow> Inl KeyError | Some v \<Rightarrow> Inr v)
      | _ \<Rightarrow> Inl TypeError)"

text \<open>
  \<open>np.asarray\<close> on numbers and nested lists of numbers. Values without a number in them
  are outside this model of numpy arrays (\<open>None\<close>).
\<close>

fun asarray :: "pyval \<Rightarrow> ndarray option" where
  "asarray (PFloat r) = Some (Scalar r)"
| "asarray (PInt i) = Some (Scalar (of_int i))"
| "asarray (PBool b) = Some (Scalar (if b then 1 else 0))"
| "asarray (PArray a) = Some a"
| "asarray (PList xs) = map_option NDArr (those (map asarray xs))"
| "asarray PNone = None"
| "asarray (PStr v) = None"
| "asarray (PDict kv) = None"

text \<open>
  Modelled from the spec: the batch and unbatch stages that an API inherits from LitAPI
  (litserve/api.py is not in src). Section 4.4: the batch stage combines the decoded
  inputs, in collection order, into the value that predict receives (arrays are stacked
  along a new first axis, other inputs are passed on as the sequence they are); the
  unbatch stage splits the result back into one output per input, in the same order.
\<close>

definition is_array :: "pyval \<Rightarrow> bool" where
  "is_array x = (case x of PArray a \<Rightarrow> True | _ \<Rightarrow> False)"

definition the_array :: "pyval \<Rightarrow> ndarray" where
  "the_array x = (case x of PArray a \<Rightarrow> a | _ \<Rightarrow> Scalar 0)"

definition LitAPI_batch :: "pyval list \<Rightarrow> error + pyval" where
  "LitAPI_batch inputs =
     (if inputs \<noteq> [] \<and> list_all is_array inputs
      then Inr (PArray (NDArr (map the_array inputs)))
      else Inr (PList inputs))"

definition LitAPI_unbatch :: "pyval \<Rightarrow> error + pyval list" where
  "LitAPI_unbatch output =
     (case output of
        PArray (NDArr ys) \<Rightarrow> Inr (map PArray ys)
      | PList ys \<Rightarrow> Inr ys
      | _ \<Rightarrow> Inl TypeError)"

text \<open>
  examples/simple_example.py, SimpleLitAPI. The object's one attribute is \<open>self.model\<close>,
  unset before setup; predict on an object without it raises AttributeError.
  \<^verbatim>\<open>
    def setup(self, device):
        self.model = lambda x: x**2
    def decode_request(self, request):
        return request["input"]
    def predict(self, x):
        return self.model(x)
    def encode_response(self, output):
        return {"output": output}
  \<close>
\<close>

type_synonym simple_self = "(pyval \<Rightarrow> error + pyval) option"

definition encode_output :: "pyval \<Rightarrow> error + pyval" where
  "encode_output output = Inr (PDict [(''output'', output)])"

definition call_model :: "simple_self \<Rightarrow> pyval \<Rightarrow> error + pyval" where
  "call_model self x = (case self of None \<Rightarrow> Inl AttributeError | Some f \<Rightarrow> f x)"

definition SimpleLitAPI :: "simple_self lit_api" where
  "SimpleLitAPI =
     \<lparr>api_setup = (\<lambda>dev self. Inr (Some py_square)),
      api_decode_request = (\<lambda>self request. request_input request),
      api_batch = (\<lambda>self inputs. LitAPI_batch inputs),
      api_predict = call_model,
      api_unbatch = (\<lambda>self output. LitAPI_unbatch output),
      api_encode_response = (\<lambda>self output. encode_output output)\<rparr>"

text \<open>
  examples/simple_example.py, SimpleBatchedAPI: as above but for
  \<^verbatim>\<open>
    def decode_request(self, request):
        return np.asarray(request["input"])
  \<close>
\<close>

definition decode_asarray :: "payload \<Rightarrow> error + pyval" where
  "decode_asarray request =
     (case request_input request of
        Inl e \<Rightarrow> Inl e
      | Inr v \<Rightarrow> (case asarray v of None \<Rightarrow> Inl TypeError | Some a \<Rightarrow> Inr (PArray a)))"

definition SimpleBatchedAPI :: "simple_self lit_api" where
  "SimpleBatchedAPI =
     \<lparr>api_setup = (\<lambda>dev self. Inr (Some py_square)),
      api_decode_request = (\<lambda>self request. decode_asarray request),
      api_batch = (\<lambda>self inputs. LitAPI_batch inputs),
      api_predict = call_model,
      api_unbatch = (\<lambda>self output. LitAPI_unbatch output),
      api_encode_response = (\<lambda>self output. encode_output output)\<rparr>"

section \<open>Devices and worker replicas\<close>

text \<open>The decimal text of an integer, as an f-string prints it.\<close>

fun str_nat :: "nat \<Rightarrow> string" where
  "str_nat k =
     (if k < 10 then [char_of (48 + k)]
      else str_nat (k div 10) @ [char_of (48 + k mod 10)])"

declare str_nat.simps [simp del]

definition str_int :: "int \<Rightarrow> string" where
  "str_int i = (if i < 0 then CHR ''-'' # str_nat (nat (- i)) else str_nat (nat i))"

text \<open>
  An element of the \<open>devices\<close> list is an index or a sequence of indices; \<open>devices\<close>
  itself is a count or a list.
  \<^verbatim>\<open>
    def device_identifiers(self, accelerator, device):
        if isinstance(device, Sequence):
            return [f"{accelerator}:{el}" for el in device]
        return [f"{accelerator}:{device}"]
  \<close>
\<close>

datatype device_arg = DeviceIndex int | DeviceIndices "int list"

datatype devices_arg = DeviceCount int | DeviceList "device_arg list"

definition device_identifiers :: "string \<Rightarrow> device_arg \<Rightarrow> string list" where
  "device_identifiers accelerator dev =
     (case dev of
        DeviceIndices els \<Rightarrow> map (\<lambda>el. accelerator @ '':'' @ str_int el) els
      | DeviceIndex i \<Rightarrow> [accelerator @ '':'' @ str_int i])"

text \<open>
  \<open>self.app.devices\<close> as \<open>__init__\<close> leaves it; \<open>None\<close> when the accelerator is neither
  of the three names, for which no branch assigns the attribute.
  \<^verbatim>\<open>
        if accelerator == "cpu":
            self.app.devices = [accelerator]
        elif accelerator in ["cuda", "gpu"]:
            device_list = devices
            if isinstance(devices, int):
                device_list = range(devices)
            self.app.devices = [self.device_identifiers(accelerator, device) for device in device_list]
  \<close>
\<close>

definition init_devices :: "string \<Rightarrow> devices_arg \<Rightarrow> device list option" where
  "init_devices accelerator devices =
     (if accelerator = ''cpu'' then Some [DevStr accelerator]
      else if accelerator \<in> set [''cuda'', ''gpu''] then
        (let device_list =
           (case devices of
              DeviceCount k \<Rightarrow> map (\<lambda>i. DeviceIndex (int i)) [0..<nat k]
            | DeviceList l \<Rightarrow> l)
         in Some (map (\<lambda>dev. DevGroup (device_identifiers accelerator dev)) device_list))
      else None)"

record app =
  app_devices :: "device list option"
  app_workers_per_device :: int
  app_timeout :: real
  app_max_batch_size :: int

definition LitServer :: "string \<Rightarrow> devices_arg \<Rightarrow> int \<Rightarrow> real \<Rightarrow> int \<Rightarrow> app" where
  "LitServer accelerator devices workers_per_device timeout max_batch_size =
     \<lparr>app_devices = init_devices accelerator devices,
      app_workers_per_device = workers_per_device,
      app_timeout = timeout,
      app_max_batch_size = max_batch_size\<rparr>"

text \<open>
  The processes that lifespan starts, by the arguments it passes to inference_worker.
  \<^verbatim>\<open>
    for worker_id, device in enumerate(app.devices * app.workers_per_device):
        if len(device) == 1:
            device = device[0]
        process = Process(target=inference_worker, args=(app.lit_api, device, worker_id, ...))
        process.start()
  \<close>
  \<open>len\<close> of a string counts its characters, and a list times a number below one is empty.
\<close>

record process =
  proc_device :: device
  proc_worker_id :: nat
  proc_max_batch_size :: int

definition device_len :: "device \<Rightarrow> nat" where
  "device_len dev = (case dev of DevStr v \<Rightarrow> length v | DevGroup ids \<Rightarrow> length ids)"

text \<open>
  \<open>device[0]\<close>, which lifespan takes only when \<open>len(device) == 1\<close>: the one character
  of a string, the one identifier of a list.
\<close>

definition device_first :: "device \<Rightarrow> device" where
  "device_first dev =
     (case dev of DevStr v \<Rightarrow> DevStr (take 1 v) | DevGroup ids \<Rightarrow> DevStr (concat (take 1 ids)))"

definition list_times :: "'a list \<Rightarrow> int \<Rightarrow> 'a list" where
  "list_times xs k = concat (replicate (nat k) xs)"

definition lifespan :: "app \<Rightarrow> error + process list" where
  "lifespan a =
     (case app_devices a of
        None \<Rightarrow> Inl AttributeError
      | Some devs \<Rightarrow>
          Inr (map (\<lambda>(worker_id, dev).
                 \<lparr>proc_device = (if device_len dev = 1 then device_first dev else dev),
                  proc_worker_id = worker_id,
                  proc_max_batch_size = app_max_batch_size a\<rparr>)
               (enumerate 0 (list_times devs (app_workers_per_device a)))))"

text \<open>What one started process runs.\<close>

definition run_process ::
  "'m lit_api \<Rightarrow> 'm \<Rightarrow> process \<Rightarrow> nat \<Rightarrow> state \<Rightarrow> error + state" where
  "run_process lit_api self p fuel s =
     inference_worker lit_api self (proc_device p) (proc_worker_id p)
       (proc_max_batch_size p) fuel s"

section \<open>The gateway: /predict\<close>

text \<open>
  What an await on a reply receiver yields: the message received, or the HTTPException
  object that get_from_pipe returns (it does not raise it).
  \<^verbatim>\<open>
    async def get_from_pipe(pipe, timeout):
        if pipe.poll(timeout):
            return pipe.recv()
        return HTTPException(status_code=504, detail="Request timed out")
  \<close>
\<close>

datatype pipe_result = Received pyval | Sentinel error

definition get_from_pipe :: "conn \<Rightarrow> state \<Rightarrow> pipe_result \<times> state" where
  "get_from_pipe pipe_r s =
     (case pipes s pipe_r of
        Open (v # rest) \<Rightarrow> (Received v, s\<lparr>pipes := (pipes s)(pipe_r := Open rest)\<rparr>)
      | _ \<Rightarrow> (Sentinel (HTTPException 504 ''Request timed out''), s))"

text \<open>
  The handler of POST /predict. \<open>uid\<close> is the value of its \<open>uuid.uuid4()\<close> call and
  \<open>request_data\<close> the body of the request. While the handler is suspended in its await,
  the workers and the other handlers run: \<open>others\<close> is what they do to the state up to the
  moment the poll ends. The handler yields its outcome (\<open>Inl\<close> for a raised exception),
  the identifiers for which it has scheduled a cleanup with \<open>background_tasks.add_task\<close>,
  and the state.
  \<^verbatim>\<open>
            uid = uuid.uuid4()
            pipe_s, pipe_r = self.new_pipe()
            if self.request_type == Request:
                request_data = await request.json()
            else:
                request_data = request
            self.app.request_buffer[uid] = (request_data, pipe_s)
            self.app.request_queue.put(uid)
            background_tasks.add_task(cleanup, self.app.request_buffer, uid)
            data = await asyncio.get_running_loop().create_task(get_from_pipe(pipe_r, self.app.timeout))
            if type(data) == HTTPException:
                raise data
            return data
  \<close>
\<close>

definition predict_dispatch :: "uid \<Rightarrow> pyval \<Rightarrow> state \<Rightarrow> conn \<times> uid list \<times> state" where
  "predict_dispatch uid request_data s =
     (let ((pipe_s, pipe_r), s1) = new_pipe s;
          s2 = buffer_insert uid (RequestData request_data) pipe_s s1;
          s3 = queue_put uid s2
      in (pipe_r, [uid], s3))"

definition predict_result :: "pipe_result \<Rightarrow> error + pyval" where
  "predict_result data = (case data of Sentinel e \<Rightarrow> Inl e | Received v \<Rightarrow> Inr v)"

definition predict ::
  "uid \<Rightarrow> pyval \<Rightarrow> (state \<Rightarrow> state) \<Rightarrow> state \<Rightarrow> (error + pyval) \<times> uid list \<times> state" where
  "predict uid request_data others s =
     (let (pipe_r, background_tasks, s3) = predict_dispatch uid request_data s;
          (data, s4) = get_from_pipe pipe_r (others s3)
      in (predict_result data, background_tasks, s4))"

text \<open>
  Modelled from the spec: the framework's background tasks (FastAPI is not in src).
  Section 4.5: the scheduled cleanup runs after the request's handling completes,
  regardless of success, failure, or timeout.
\<close>

definition run_background_tasks :: "uid list \<Rightarrow> state \<Rightarrow> state" where
  "run_background_tasks tasks s = fold cleanup tasks s"

definition serve_predict ::
  "uid \<Rightarrow> pyval \<Rightarrow> (state \<Rightarrow> state) \<Rightarrow> state \<Rightarrow> (error + pyval) \<times> state" where
  "serve_predict uid request_data others s =
     (let (outcome, background_tasks, s') = predict uid request_data others s
      in (outcome, run_background_tasks background_tasks s'))"

section \<open>The gateway: /v1/chat/completions\<close>

text \<open>
  The checks at the head of the chat handler, in their order; \<open>Some\<close> is the exception
  raised.
  \<^verbatim>\<open>
            if request.stream:
                raise HTTPException(status_code=400, detail="Streaming not currently supported")
            if request.stop is not None:
                raise HTTPException(status_code=400, detail="Parameter stop not currently supported")
            if request.frequency_penalty:
                raise HTTPException(status_code=400, detail="Parameter frequency_penalty not currently supported")
            if request.presence_penalty:
                raise HTTPException(status_code=400, detail="Parameter presence_penalty not currently supported")
            if request.max_tokens is not None:
                raise HTTPException(status_code=400, detail="Parameter max_tokens not currently supported")
            if request.top_p != 1.0:
                raise HTTPException(status_code=400, detail="Parameter top_p not currently supported")
  \<close>
\<close>

definition chat_check :: "chat_completion_request \<Rightarrow> error option" where
  "chat_check request =
     (if req_stream request
        then Some (HTTPException 400 ''Streaming not currently supported'')
      else if req_stop request \<noteq> None
        then Some (HTTPException 400 ''Parameter stop not currently supported'')
      else if req_frequency_penalty request \<noteq> 0
        then Some (HTTPException 400 ''Parameter frequency_penalty not currently supported'')
      else if req_presence_penalty request \<noteq> 0
        then Some (HTTPException 400 ''Parameter presence_penalty not currently supported'')
      else if req_max_tokens request \<noteq> None
        then Some (HTTPException 400 ''Parameter max_tokens not currently supported'')
      else if req_top_p request \<noteq> 1
        then Some (HTTPException 400 ''Parameter top_p not currently supported'')
      else None)"

text \<open>
  The fan-out loop, with the receivers and scheduled cleanups gathered so far:
  \<^verbatim>\<open>
            for uid in uids:
                pipe_s, pipe_r = self.new_pipe()
                self.app.request_buffer[uid] = (request, pipe_s)
                self.app.request_queue.put(uid)
                background_tasks.add_task(cleanup, self.app.request_buffer, uid)
                pipes.append(pipe_r)
  \<close>
\<close>

fun chat_dispatch ::
  "uid list \<Rightarrow> chat_completion_request \<Rightarrow> conn list \<Rightarrow> uid list \<Rightarrow> state \<Rightarrow>
   conn list \<times> uid list \<times> state" where
  "chat_dispatch [] request receivers background_tasks s = (receivers, background_tasks, s)"
| "chat_dispatch (uid # uids) request receivers background_tasks s =
     (let ((pipe_s, pipe_r), s1) = new_pipe s;
          s2 = buffer_insert uid (ChatRequest request) pipe_s s1;
          s3 = queue_put uid s2
      in chat_dispatch uids request (receivers @ [pipe_r]) (background_tasks @ [uid]) s3)"

text \<open>
  The awaits, one receiver after the other; \<open>others k\<close> is what the rest of the system
  does while the handler is suspended in its \<open>k\<close>-th await.
  \<^verbatim>\<open>
            responses = []
            for pipe_r in pipes:
                data = await asyncio.get_running_loop().create_task(get_from_pipe(pipe_r, self.app.timeout))
                responses.append(data)
  \<close>
\<close>

fun chat_await ::
  "conn list \<Rightarrow> (nat \<Rightarrow> state \<Rightarrow> state) \<Rightarrow> nat \<Rightarrow> pipe_result list \<Rightarrow> state \<Rightarrow>
   pipe_result list \<times> state" where
  "chat_await [] others k responses s = (responses, s)"
| "chat_await (pipe_r # receivers) others k responses s =
     (let (data, s') = get_from_pipe pipe_r (others k s)
      in chat_await receivers others (Suc k) (responses @ [data]) s')"

text \<open>
  Modelled from the spec: the usage counters (litserve.schemas.openai.UsageInfo and
  pydantic are not in src). Section 3: counters of units, summed across the sub-responses;
  section 4.6: initialised to zero, a missing counter is zero. The names of the counters
  are the parameter \<open>counters\<close>; a usage object lists its counters in that order.
  \<open>parse_obj\<close> reads the counters of a reported usage and refuses a usage that is not an
  object, or a counter that is not an integer.
\<close>

type_synonym usage_info = "(string \<times> int) list"

definition UsageInfo :: "string list \<Rightarrow> usage_info" where
  "UsageInfo counters = map (\<lambda>k. (k, 0)) counters"

fun parse_fields :: "string list \<Rightarrow> (string \<times> pyval) list \<Rightarrow> error + usage_info" where
  "parse_fields [] kv = Inr []"
| "parse_fields (k # ks) kv =
     (case (case map_of kv k of
              None \<Rightarrow> Inr 0
            | Some (PInt i) \<Rightarrow> Inr i
            | Some _ \<Rightarrow> Inl ValidationError) of
        Inl e \<Rightarrow> Inl e
      | Inr i \<Rightarrow>
          (case parse_fields ks kv of
             Inl e \<Rightarrow> Inl e
           | Inr rest \<Rightarrow> Inr ((k, i) # rest)))"

definition parse_obj :: "string list \<Rightarrow> pyval \<Rightarrow> error + usage_info" where
  "parse_obj counters obj =
     (case obj of PDict kv \<Rightarrow> parse_fields counters kv | _ \<Rightarrow> Inl ValidationError)"

text \<open>
  \<open>getattr(usage, key)\<close> and \<open>setattr(usage, key, value)\<close> on a usage object, and the
  loop
  \<^verbatim>\<open>
                for usage_key, usage_value in task_usage.dict().items():
                    setattr(usage, usage_key, getattr(usage, usage_key) + usage_value)
  \<close>
\<close>

definition usage_getattr :: "usage_info \<Rightarrow> string \<Rightarrow> int" where
  "usage_getattr usage k = (case map_of usage k of None \<Rightarrow> 0 | Some v \<Rightarrow> v)"

definition usage_setattr :: "usage_info \<Rightarrow> string \<Rightarrow> int \<Rightarrow> usage_info" where
  "usage_setattr usage k v = map (\<lambda>(k', v'). if k' = k then (k', v) else (k', v')) usage"

definition usage_add :: "usage_info \<Rightarrow> usage_info \<Rightarrow> usage_info" where
  "usage_add usage task_usage =
     fold (\<lambda>(usage_key, usage_value) u.
             usage_setattr u usage_key (usage_getattr u usage_key + usage_value))
       task_usage usage"

text \<open>
  Modelled from the spec: the response shapes (litserve.schemas.openai is not in src).
  Section 6: \<open>{model, choices:[{index, message:{role, content}, finish_reason}], usage}\<close>.
\<close>

record chat_message =
  msg_role :: string
  msg_content :: pyval

record chat_completion_response_choice =
  choice_index :: nat
  choice_message :: chat_message
  choice_finish_reason :: pyval

record chat_completion_response =
  resp_model :: string
  resp_choices :: "chat_completion_response_choice list"
  resp_usage :: usage_info

text \<open>
  The operations of the aggregation loop on one element of \<open>responses\<close>:
  \<open>response[key]\<close>, \<open>response.get(key, default)\<close> and \<open>key in response\<close>. A received
  dict has them all. An HTTPException object has none of them: subscripting it and testing
  membership in it raise TypeError, and it has no attribute \<open>get\<close>. So do the other values
  that are not dicts, but for the numpy array, whose subscript by a string is an IndexError,
  and the list and the string, which have a membership test (of elements, of substrings).
\<close>

definition response_getitem :: "pipe_result \<Rightarrow> string \<Rightarrow> error + pyval" where
  "response_getitem response key =
     (case response of
        Received (PDict kv) \<Rightarrow>
          (case map_of kv key of None \<Rightarrow> Inl KeyError | Some v \<Rightarrow> Inr v)
      | Received (PArray a) \<Rightarrow> Inl IndexError
      | _ \<Rightarrow> Inl TypeError)"

definition response_get :: "pipe_result \<Rightarrow> string \<Rightarrow> pyval \<Rightarrow> error + pyval" where
  "response_get response key dflt =
     (case response of
        Received (PDict kv) \<Rightarrow>
          (case map_of kv key of None \<Rightarrow> Inr dflt | Some v \<Rightarrow> Inr v)
      | _ \<Rightarrow> Inl AttributeError)"

definition response_contains :: "string \<Rightarrow> pipe_result \<Rightarrow> error + bool" where
  "response_contains key response =
     (case response of
        Received (PDict kv) \<Rightarrow> Inr (map_of kv key \<noteq> None)
      | Received (PList vs) \<Rightarrow> Inr (PStr key \<in> set vs)
      | Received (PStr v) \<Rightarrow>
          Inr (list_ex (\<lambda>i. take (length key) (drop i v) = key) [0..<Suc (length v)])
      | _ \<Rightarrow> Inl TypeError)"

text \<open>
  The aggregation loop, at index \<open>i\<close> with the choices and the usage gathered so far:
  \<^verbatim>\<open>
            usage = UsageInfo()
            for i, response in enumerate(responses):
                choices.append(
                    ChatCompletionResponseChoice(
                        index=i,
                        message=ChatMessage(role="assistant", content=response["text"]),
                        finish_reason=response.get("finish_reason", "stop"),
                    )
                )
                if "usage" in response:
                    task_usage = UsageInfo.parse_obj(response["usage"])
                else:
                    task_usage = UsageInfo()
                for usage_key, usage_value in task_usage.dict().items():
                    setattr(usage, usage_key, getattr(usage, usage_key) + usage_value)
  \<close>
\<close>

definition task_usage_of :: "string list \<Rightarrow> pipe_result \<Rightarrow> error + usage_info" where
  "task_usage_of counters response =
     (case response_contains ''usage'' response of
        Inl e \<Rightarrow> Inl e
      | Inr present \<Rightarrow>
          if present
          then (case response_getitem response ''usage'' of
                  Inl e \<Rightarrow> Inl e
                | Inr u \<Rightarrow> parse_obj counters u)
          else Inr (UsageInfo counters))"

fun aggregate ::
  "string list \<Rightarrow> nat \<Rightarrow> pipe_result list \<Rightarrow> chat_completion_response_choice list \<Rightarrow>
   usage_info \<Rightarrow> error + (chat_completion_response_choice list \<times> usage_info)" where
  "aggregate counters i [] choices usage = Inr (choices, usage)"
| "aggregate counters i (response # responses) choices usage =
     (case response_getitem response ''text'' of
        Inl e \<Rightarrow> Inl e
      | Inr text \<Rightarrow>
          (case response_get response ''finish_reason'' (PStr ''stop'') of
             Inl e \<Rightarrow> Inl e
           | Inr reason \<Rightarrow>
               (case task_usage_of counters response of
                  Inl e \<Rightarrow> Inl e
                | Inr task_usage \<Rightarrow>
                    aggregate counters (Suc i) responses
                      (choices @
                         [\<lparr>choice_index = i,
                           choice_message = \<lparr>msg_role = ''assistant'', msg_content = text\<rparr>,
                           choice_finish_reason = reason\<rparr>])
                      (usage_add usage task_usage))))"

text \<open>
  The handler of POST /v1/chat/completions. \<open>fresh k\<close> is the value of the \<open>k\<close>-th call of
  \<open>uuid.uuid4()\<close>, in \<open>uids = [uuid.uuid4() for _ in range(request.n)]\<close>; the last line
  is \<open>model = request.model or "litserve"\<close>.
\<close>

definition chat_model :: "chat_completion_request \<Rightarrow> string" where
  "chat_model request =
     (case req_model request of
        None \<Rightarrow> ''litserve''
      | Some m \<Rightarrow> if m = [] then ''litserve'' else m)"

definition chat ::
  "string list \<Rightarrow> (nat \<Rightarrow> uid) \<Rightarrow> chat_completion_request \<Rightarrow> (nat \<Rightarrow> state \<Rightarrow> state) \<Rightarrow>
   state \<Rightarrow> (error + chat_completion_response) \<times> uid list \<times> state" where
  "chat counters fresh request others s =
     (case chat_check request of
        Some e \<Rightarrow> (Inl e, [], s)
      | None \<Rightarrow>
          (let uids = map fresh [0..<nat (req_n request)];
               (receivers, background_tasks, s1) = chat_dispatch uids request [] [] s;
               (responses, s2) = chat_await receivers others 0 [] s1
           in (case aggregate counters 0 responses [] (UsageInfo counters) of
                 Inl e \<Rightarrow> (Inl e, background_tasks, s2)
               | Inr (choices, usage) \<Rightarrow>
                   (Inr \<lparr>resp_model = chat_model request,
                         resp_choices = choices,
                         resp_usage = usage\<rparr>,
                    background_tasks, s2))))"

section \<open>Example inputs\<close>

text \<open>
  The request body of the square example, and the state in which the /predict handler has
  dispatched it under identifier 7 from the initial state and is waiting for the reply.
\<close>

definition square_request :: pyval where
  "square_request = PDict [(''input'', PFloat 4)]"

definition queued_state :: state where
  "queued_state = snd (snd (predict_dispatch 7 square_request initial_state))"

text \<open>
  A second request, with input 5.0, dispatched under identifier 8 while the first waits.
\<close>

definition square_request5 :: pyval where
  "square_request5 = PDict [(''input'', PFloat 5)]"

definition queued_state2 :: state where
  "queued_state2 = snd (snd (predict_dispatch 8 square_request5 queued_state))"


section \<open>What the chat handler gathers, and what the specification expects of it\<close>

text \<open>
  The receivers that the fan-out of a chat request acquires, the state in which the handler
  starts to wait, and the list \<open>responses\<close> that its awaits fill.
\<close>

definition chat_uids :: "(nat \<Rightarrow> uid) \<Rightarrow> chat_completion_request \<Rightarrow> uid list" where
  "chat_uids fresh request = map fresh [0..<nat (req_n request)]"

definition chat_receivers :: "(nat \<Rightarrow> uid) \<Rightarrow> chat_completion_request \<Rightarrow> state \<Rightarrow> conn list" where
  "chat_receivers fresh request s = fst (chat_dispatch (chat_uids fresh request) request [] [] s)"

definition chat_waiting :: "(nat \<Rightarrow> uid) \<Rightarrow> chat_completion_request \<Rightarrow> state \<Rightarrow> state" where
  "chat_waiting fresh request s =
     snd (snd (chat_dispatch (chat_uids fresh request) request [] [] s))"

definition chat_responses ::
  "(nat \<Rightarrow> uid) \<Rightarrow> chat_completion_request \<Rightarrow> (nat \<Rightarrow> state \<Rightarrow> state) \<Rightarrow> state \<Rightarrow>
   pipe_result list" where
  "chat_responses fresh request others s =
     fst (chat_await (chat_receivers fresh request s) others 0 [] (chat_waiting fresh request s))"

text \<open>
  The composite response in the words of the specification (section 4.6). A sub-response
  has arrived in good order when it is a received object with a text field whose usage, if
  it reports one, is an object of integer counters. Its choice has the index of its
  sub-request, the role "assistant", its text as content, and its finish reason or "stop";
  its usage counts zero for what it does not report.
\<close>

definition counter_ok :: "(string \<times> pyval) list \<Rightarrow> string \<Rightarrow> bool" where
  "counter_ok u k = (case map_of u k of None \<Rightarrow> True | Some (PInt i) \<Rightarrow> True | Some _ \<Rightarrow> False)"

definition arrived :: "string list \<Rightarrow> pipe_result \<Rightarrow> bool" where
  "arrived counters r =
     (case r of
        Received (PDict kv) \<Rightarrow>
          map_of kv ''text'' \<noteq> None \<and>
          (case map_of kv ''usage'' of
             None \<Rightarrow> True
           | Some (PDict u) \<Rightarrow> list_all (counter_ok u) counters
           | Some _ \<Rightarrow> False)
      | _ \<Rightarrow> False)"

definition sub_text :: "pipe_result \<Rightarrow> pyval" where
  "sub_text r =
     (case r of
        Received (PDict kv) \<Rightarrow> (case map_of kv ''text'' of None \<Rightarrow> PNone | Some v \<Rightarrow> v)
      | _ \<Rightarrow> PNone)"

definition sub_finish_reason :: "pipe_result \<Rightarrow> pyval" where
  "sub_finish_reason r =
     (case r of
        Received (PDict kv) \<Rightarrow>
          (case map_of kv ''finish_reason'' of None \<Rightarrow> PStr ''stop'' | Some v \<Rightarrow> v)
      | _ \<Rightarrow> PStr ''stop'')"

definition counter_of :: "(string \<times> pyval) list \<Rightarrow> string \<Rightarrow> int" where
  "counter_of u k = (case map_of u k of Some (PInt i) \<Rightarrow> i | _ \<Rightarrow> 0)"

definition sub_usage :: "pipe_result \<Rightarrow> string \<Rightarrow> int" where
  "sub_usage r k =
     (case r of
        Received (PDict kv) \<Rightarrow>
          (case map_of kv ''usage'' of Some (PDict u) \<Rightarrow> counter_of u k | _ \<Rightarrow> 0)
      | _ \<Rightarrow> 0)"

definition expected_choice :: "nat \<Rightarrow> pipe_result \<Rightarrow> chat_completion_response_choice" where
  "expected_choice i r =
     \<lparr>choice_index = i,
      choice_message = \<lparr>msg_role = ''assistant'', msg_content = sub_text r\<rparr>,
      choice_finish_reason = sub_finish_reason r\<rparr>"

definition expected_choices :: "nat \<Rightarrow> pipe_result list \<Rightarrow> chat_completion_response_choice list" where
  "expected_choices i rs = map (\<lambda>(j, r). expected_choice j r) (enumerate i rs)"

definition expected_usage :: "string list \<Rightarrow> pipe_result list \<Rightarrow> usage_info" where
  "expected_usage counters rs = map (\<lambda>k. (k, sum_list (map (\<lambda>r. sub_usage r k) rs))) counters"

text \<open>
  A chat request for two completions with every parameter at its default, the same with
  \<open>top_p = 0.9\<close>, the identifiers that the two \<open>uuid4\<close> calls return, workers that
  answer during the first wait with the sub-responses of the specification's example (on the
  pairs 99 and 98, which the two sub-requests acquire from the initial pool), and workers
  that never answer.
\<close>

definition chat_request2 :: chat_completion_request where
  "chat_request2 =
     \<lparr>req_model = None, req_messages = PList [], req_n = 2, req_stream = False,
      req_stop = None, req_frequency_penalty = 0, req_presence_penalty = 0,
      req_max_tokens = None, req_top_p = 1\<rparr>"

definition chat_request_top_p :: chat_completion_request where
  "chat_request_top_p = chat_request2\<lparr>req_top_p := 9 / 10\<rparr>"

definition fresh_uids :: "nat \<Rightarrow> uid" where
  "fresh_uids k = 10 + k"

definition reply_a :: pyval where
  "reply_a = PDict [(''text'', PStr ''a''), (''usage'', PDict [(''total'', PInt 3)])]"

definition reply_b :: pyval where
  "reply_b = PDict [(''text'', PStr ''b''), (''usage'', PDict [(''total'', PInt 2)])]"

definition example_replies :: "nat \<Rightarrow> state \<Rightarrow> state" where
  "example_replies k s =
     (if k = 0 then send_suppress 98 reply_b (send_suppress 99 reply_a s) else s)"

definition no_replies :: "nat \<Rightarrow> state \<Rightarrow> state" where
  "no_replies k s = s"

text \<open>The exceptions that the aggregation loop of the chat handler can end with.\<close>

definition aggregation_error :: "error \<Rightarrow> bool" where
  "aggregation_error e =
     (e \<in> set [KeyError, TypeError, IndexError, AttributeError, ValidationError])"

section \<open>Ownership of channel pairs\<close>

text \<open>
  The pool is in order when its pairs are pairwise different and each is a pair that some
  earlier \<open>Pipe()\<close> call has made. \<open>worker_pass\<close> is a worker of the square API making
  one pass of its loop while a handler waits.
\<close>

definition pool_ok :: "state \<Rightarrow> bool" where
  "pool_ok s =
     (distinct (pipe_pool s) \<and>
      list_all (\<lambda>(pipe_s, pipe_r). pipe_s = pipe_r \<and> pipe_r < next_pipe s) (pipe_pool s))"

definition worker_pass :: "state \<Rightarrow> state" where
  "worker_pass s =
     (case single_loop_body SimpleLitAPI (Some py_square) s of Inl e \<Rightarrow> s | Inr s' \<Rightarrow> s')"

text \<open>Whether an entry of the call log is an invocation of the setup stage.\<close>

definition is_setup :: "call \<Rightarrow> bool" where
  "is_setup c = (case c of CSetup dev \<Rightarrow> True | _ \<Rightarrow> False)"

text \<open>
  Two servers: on the CPU with two workers per device, and on the cuda devices 1 and 2 with
  two workers per device.
\<close>

definition cpu_server :: app where
  "cpu_server = LitServer ''cpu'' (DeviceCount 1) 2 30 1"

definition cuda_server :: app where
  "cuda_server = LitServer ''cuda'' (DeviceList [DeviceIndex 1, DeviceIndex 2]) 2 30 1"


section \<open>The initial state and the example state\<close>

lemma upt_100: "[0..<100::nat] = [0..<99] @ [99]"
  using upt_Suc_append [of 0 99] by simp

lemma pool_initial: "pipe_pool initial_state = map (\<lambda>i. (i, i)) [0..<99] @ [(99, 99)]"
  by (simp add: initial_state_def initial_pool_size_def upt_100)

lemma initial_state_simps:
  "request_queue initial_state = []"
  "request_buffer initial_state = Map.empty"
  "pipes initial_state c = Open []"
  "call_log initial_state = []"
  "max_pool_size initial_state = 1000"
  "next_pipe initial_state = 100"
  "length (pipe_pool initial_state) = 100"
  by (simp_all add: initial_state_def initial_pool_size_def)

lemma new_pipe_initial:
  "new_pipe initial_state =
     ((99, 99), initial_state\<lparr>pipe_pool := map (\<lambda>i. (i, i)) [0..<99]\<rparr>)"
  by (simp add: new_pipe_def pool_initial)

lemma queued_state_eq:
  "queued_state = initial_state
     \<lparr>pipe_pool := map (\<lambda>i. (i, i)) [0..<99],
      request_buffer := [7 \<mapsto> (RequestData square_request, 99)],
      request_queue := [7]\<rparr>"
  by (simp add: queued_state_def predict_dispatch_def new_pipe_initial buffer_insert_def
      queue_put_def initial_state_simps)

lemma queued_state_buffer:
  "request_buffer queued_state 7 = Some (RequestData square_request, 99)"
  by (simp add: queued_state_eq)

section \<open>Properties of the Request Table and its take\<close>

lemma buffer_pop_present:
  "request_buffer s uid = Some entry \<Longrightarrow>
   buffer_pop uid s = Inr (entry, s\<lparr>request_buffer := (request_buffer s)(uid := None)\<rparr>)"
  by (simp add: buffer_pop_def)

lemma buffer_pop_absent:
  "request_buffer s uid = None \<Longrightarrow> buffer_pop uid s = Inl KeyError"
  by (simp add: buffer_pop_def)

lemma cleanup_absent:
  "request_buffer s uid = None \<Longrightarrow> cleanup uid s = s"
  by (simp add: cleanup_def buffer_pop_def)

lemma cleanup_buffer:
  "request_buffer (cleanup uid s) = (request_buffer s)(uid := None)"
  by (auto simp: cleanup_def buffer_pop_def split: option.splits)

lemma take_step_buffer:
  "request_buffer (snd (take_step t s)) = (request_buffer s)(take_uid t := None)"
  by (cases t) (auto simp: take_step_def buffer_pop_def cleanup_buffer split: option.splits)

lemma take_step_result:
  "fst (take_step t s) = request_buffer s (take_uid t)"
  by (cases t) (auto simp: take_step_def buffer_pop_def split: option.splits)

lemma run_takes_absent:
  "request_buffer s uid = None \<Longrightarrow>
   request_buffer (snd (run_takes ts s)) uid = None \<and>
   (\<forall>i < length ts. take_uid (ts ! i) = uid \<longrightarrow> fst (run_takes ts s) ! i = None)"
proof (induction ts arbitrary: s)
  case Nil
  then show ?case by simp
next
  case (Cons t ts)
  obtain r s' where step: "take_step t s = (r, s')" by (cases "take_step t s")
  obtain rs s'' where rest: "run_takes ts s' = (rs, s'')" by (cases "run_takes ts s'")
  have r: "r = request_buffer s (take_uid t)"
    using take_step_result [of t s] step by simp
  have "request_buffer s' = (request_buffer s)(take_uid t := None)"
    using take_step_buffer [of t s] step by simp
  then have absent': "request_buffer s' uid = None"
    using Cons.prems by simp
  have ih: "request_buffer s'' uid = None \<and>
      (\<forall>i < length ts. take_uid (ts ! i) = uid \<longrightarrow> rs ! i = None)"
    using Cons.IH [OF absent'] rest by simp
  show ?case
  proof (intro conjI allI impI)
    show "request_buffer (snd (run_takes (t # ts) s)) uid = None"
      using ih step rest by simp
  next
    fix i
    assume i: "i < length (t # ts)" and u: "take_uid ((t # ts) ! i) = uid"
    show "fst (run_takes (t # ts) s) ! i = None"
    proof (cases i)
      case 0
      then show ?thesis using step rest r u Cons.prems by simp
    next
      case (Suc j)
      then show ?thesis using step rest ih i u by simp
    qed
  qed
qed




text \<open>
  C1. The take of an identifier is idempotent. For an identifier present in the Request
  Table, the first caller, a worker's pop or the cleanup step, receives the stored
  (payload, sender) entry and removes it; whatever sequence of takes by workers and
  cleanups follows, every later caller for the same identifier finds it absent (the worker
  gets KeyError and skips, cleanup leaves the state as it is) and none receives the entry
  a second time.
\<close>

theorem take_idempotent:
  assumes "request_buffer s uid = Some entry"
      and "take_uid t = uid"
  shows "fst (take_step t s) = Some entry \<and>
         buffer_pop uid s =
           Inr (entry, s\<lparr>request_buffer := (request_buffer s)(uid := None)\<rparr>) \<and>
         buffer_pop uid (snd (take_step t s)) = Inl KeyError \<and>
         cleanup uid (snd (take_step t s)) = snd (take_step t s) \<and>
         (\<forall>i < length ts. take_uid (ts ! i) = uid \<longrightarrow>
            fst (run_takes ts (snd (take_step t s))) ! i = None) \<and>
         request_buffer (snd (run_takes ts (snd (take_step t s)))) uid = None"
proof -
  have absent: "request_buffer (snd (take_step t s)) uid = None"
    using take_step_buffer [of t s] assms(2) by simp
  have first: "fst (take_step t s) = Some entry"
    using take_step_result [of t s] assms by simp
  have pop1: "buffer_pop uid s =
      Inr (entry, s\<lparr>request_buffer := (request_buffer s)(uid := None)\<rparr>)"
    using assms(1) by (rule buffer_pop_present)
  have pop2: "buffer_pop uid (snd (take_step t s)) = Inl KeyError"
    using absent by (rule buffer_pop_absent)
  have noop: "cleanup uid (snd (take_step t s)) = snd (take_step t s)"
    using absent by (rule cleanup_absent)
  have later: "\<forall>i < length ts. take_uid (ts ! i) = uid \<longrightarrow>
      fst (run_takes ts (snd (take_step t s))) ! i = None"
    using run_takes_absent [OF absent] by blast
  have final: "request_buffer (snd (run_takes ts (snd (take_step t s)))) uid = None"
    using run_takes_absent [OF absent] by blast
  show ?thesis
    using first pop1 pop2 noop later final by blast
qed

theorem take_idempotent_witness:
  "request_buffer queued_state 7 = Some (RequestData square_request, 99) \<and>
   take_uid (WorkerPop 7) = 7 \<and>
   fst (take_step (WorkerPop 7) queued_state) = Some (RequestData square_request, 99) \<and>
   buffer_pop 7 (snd (take_step (WorkerPop 7) queued_state)) = Inl KeyError \<and>
   cleanup 7 (snd (take_step (WorkerPop 7) queued_state)) =
     snd (take_step (WorkerPop 7) queued_state) \<and>
   fst (run_takes [Cleanup 7, WorkerPop 7] (snd (take_step (WorkerPop 7) queued_state))) ! 0 =
     None \<and>
   fst (run_takes [Cleanup 7, WorkerPop 7] (snd (take_step (WorkerPop 7) queued_state))) ! 1 =
     None"
proof -
  have present: "request_buffer queued_state 7 = Some (RequestData square_request, 99)"
    by (rule queued_state_buffer)
  have uid: "take_uid (WorkerPop 7) = 7" by simp
  note th = take_idempotent [OF present uid, of "[Cleanup 7, WorkerPop 7]"]
  have later: "\<forall>i < length [Cleanup 7, WorkerPop 7].
     take_uid ([Cleanup 7, WorkerPop 7] ! i) = 7 \<longrightarrow>
     fst (run_takes [Cleanup 7, WorkerPop 7] (snd (take_step (WorkerPop 7) queued_state))) ! i =
       None"
    using th by blast
  have l0: "fst (run_takes [Cleanup 7, WorkerPop 7]
      (snd (take_step (WorkerPop 7) queued_state))) ! 0 = None"
    using later by force
  have l1: "fst (run_takes [Cleanup 7, WorkerPop 7]
      (snd (take_step (WorkerPop 7) queued_state))) ! 1 = None"
    using later by force
  show ?thesis using present uid th l0 l1 by blast
qed

section \<open>The single-request loop on the square example\<close>

text \<open>
  C3. The single-request loop with the simple square API. Given a queued identifier whose
  table entry holds the payload {"input": 4.0}, one pass of the loop takes the identifier
  and the entry, runs decode (on the payload, giving 4.0), then predict (on 4.0, giving
  16.0), then encode (on 16.0, giving {"output": 16.0}), and sends exactly that value on the
  entry's reply sender: it is appended to the channel, unless the caller is gone, when the
  failed send is swallowed. Setup has set the model to the square.
\<close>

theorem single_loop_square:
  assumes queued: "request_queue s = uid # rest"
      and entry: "request_buffer s uid = Some (RequestData (PDict [(''input'', PFloat 4)]), pipe_s)"
  shows "api_setup SimpleLitAPI dev self0 = Inr (Some py_square) \<and>
         single_loop_body SimpleLitAPI (Some py_square) s =
           Inr (s\<lparr>request_queue := rest,
                  request_buffer := (request_buffer s)(uid := None),
                  call_log := call_log s @
                    [CDecode (RequestData (PDict [(''input'', PFloat 4)])),
                     CPredict (PFloat 4),
                     CEncode (PFloat 16),
                     CSend pipe_s (PDict [(''output'', PFloat 16)])],
                  pipes :=
                    (case pipes s pipe_s of
                       Open msgs \<Rightarrow>
                         (pipes s)(pipe_s := Open (msgs @ [PDict [(''output'', PFloat 16)]]))
                     | Closed \<Rightarrow> pipes s)\<rparr>)"
proof (cases "pipes s pipe_s")
  case (Open msgs)
  then show ?thesis
    using assms
    by (simp add: single_loop_body_def queue_get_def buffer_pop_def SimpleLitAPI_def
        request_input_def call_model_def py_square_def encode_output_def send_suppress_def
        send_def log_call_def)
next
  case Closed
  then show ?thesis
    using assms
    by (simp add: single_loop_body_def queue_get_def buffer_pop_def SimpleLitAPI_def
        request_input_def call_model_def py_square_def encode_output_def send_suppress_def
        send_def log_call_def)
qed

theorem single_loop_square_witness:
  "request_queue queued_state = [7] \<and>
   request_buffer queued_state 7 = Some (RequestData (PDict [(''input'', PFloat 4)]), 99) \<and>
   pipes queued_state 99 = Open [] \<and>
   (case single_loop_body SimpleLitAPI (Some py_square) queued_state of
      Inl e \<Rightarrow> False
    | Inr s' \<Rightarrow> pipes s' 99 = Open [PDict [(''output'', PFloat 16)]] \<and>
               request_queue s' = [] \<and> request_buffer s' 7 = None)"
proof -
  have q: "request_queue queued_state = [7]" by (simp add: queued_state_eq)
  have e: "request_buffer queued_state 7 = Some (RequestData (PDict [(''input'', PFloat 4)]), 99)"
    by (simp add: queued_state_eq square_request_def)
  have w: "pipes queued_state 99 = Open []" by (simp add: queued_state_eq initial_state_simps)
  show ?thesis
    using single_loop_square [OF q e] q e w by simp
qed

section \<open>The Channel Pool\<close>

lemma pool_step_length: "length (pipe_pool (pool_step op s)) \<le> length (pipe_pool s)"
  by (cases op) (auto simp: pool_step_def new_pipe_def Pipe_def dispose_pipe_def)

lemma pool_never_grows:
  "length (pipe_pool (fold pool_step ops s)) \<le> length (pipe_pool s)"
proof (induction ops arbitrary: s)
  case Nil
  then show ?case by simp
next
  case (Cons op ops)
  have "length (pipe_pool (fold pool_step ops (pool_step op s))) \<le>
      length (pipe_pool (pool_step op s))"
    by (rule Cons.IH)
  also have "\<dots> \<le> length (pipe_pool s)" by (rule pool_step_length)
  finally show ?case by simp
qed

text \<open>
  C7. The pool of the initial state holds 100 pairs, below the maximum of 1000, so that a
  release should add the pair back. dispose_pipe passes its size check and then calls
  \<open>append\<close> with two arguments: it raises TypeError and the pool keeps its 100 pairs. At a
  pool of exactly 1000 pairs the check (\<open>>\<close>, not \<open>>=\<close>) still lets the call through to the
  append, where the claim has the pair dropped without an error.
\<close>

theorem dispose_pipe_raises:
  "length (pipe_pool initial_state) = 100 \<and>
   max_pool_size initial_state = 1000 \<and>
   dispose_pipe 100 100 initial_state = Inl TypeError \<and>
   pipe_pool (pool_step (Release 100 100) initial_state) = pipe_pool initial_state \<and>
   dispose_pipe 100 100 (initial_state\<lparr>pipe_pool := replicate 1000 (0, 0)\<rparr>) = Inl TypeError"
  by (simp add: dispose_pipe_def pool_step_def initial_state_simps)

section \<open>The batched loop on the square example\<close>

lemma upt_99: "[0..<99::nat] = [0..<98] @ [98]"
  using upt_Suc_append [of 0 98] by simp

lemma queued_state2_eq:
  "queued_state2 = initial_state
     \<lparr>pipe_pool := map (\<lambda>i. (i, i)) [0..<98],
      request_buffer := [7 \<mapsto> (RequestData square_request, 99), 8 \<mapsto> (RequestData square_request5, 98)],
      request_queue := [7, 8]\<rparr>"
  by (simp add: queued_state2_def queued_state_eq predict_dispatch_def new_pipe_def upt_99 buffer_insert_def
      queue_put_def initial_state_simps)

text \<open>
  C4. The batched loop with a maximum batch size of 2 and the batched square API. With two
  identifiers queued, whose entries hold the inputs 4.0 and 5.0 and whose callers wait on
  their own reply channels, one pass collects both (decoding each in queue order), calls
  batch once on the two inputs, predict once on the whole batch, unbatch once on its
  result, and then, in collection order, encodes 16.0 and sends it to the sender of the
  first request, and encodes 25.0 and sends it to the sender of the second.
\<close>

theorem batched_loop_square:
  assumes queued: "request_queue s = u1 # u2 # rest"
      and two: "u1 \<noteq> u2"
      and e1: "request_buffer s u1 = Some (RequestData (PDict [(''input'', PFloat 4)]), p1)"
      and e2: "request_buffer s u2 = Some (RequestData (PDict [(''input'', PFloat 5)]), p2)"
      and own: "p1 \<noteq> p2"
      and w1: "pipes s p1 = Open m1"
      and w2: "pipes s p2 = Open m2"
  shows "batched_loop_body SimpleBatchedAPI (Some py_square) 2 s =
           Inr (s\<lparr>request_queue := rest,
                  request_buffer := (request_buffer s)(u1 := None, u2 := None),
                  call_log := call_log s @
                    [CDecode (RequestData (PDict [(''input'', PFloat 4)])),
                     CDecode (RequestData (PDict [(''input'', PFloat 5)])),
                     CBatch [PArray (Scalar 4), PArray (Scalar 5)],
                     CPredict (PArray (NDArr [Scalar 4, Scalar 5])),
                     CUnbatch (PArray (NDArr [Scalar 16, Scalar 25])),
                     CEncode (PArray (Scalar 16)),
                     CSend p1 (PDict [(''output'', PArray (Scalar 16))]),
                     CEncode (PArray (Scalar 25)),
                     CSend p2 (PDict [(''output'', PArray (Scalar 25))])],
                  pipes := (pipes s)
                    (p1 := Open (m1 @ [PDict [(''output'', PArray (Scalar 16))]]),
                     p2 := Open (m2 @ [PDict [(''output'', PArray (Scalar 25))]]))\<rparr>)"
proof -
  have two_rounds: "nat 2 = Suc (Suc 0)" by simp
  show ?thesis
    unfolding batched_loop_body_def two_rounds
    using assms
    by (simp add: queue_get_def buffer_pop_def SimpleBatchedAPI_def decode_asarray_def
      request_input_def call_model_def py_square_def encode_output_def send_suppress_def
      send_def log_call_def LitAPI_batch_def LitAPI_unbatch_def is_array_def the_array_def)
qed

theorem batched_loop_square_witness:
  "request_queue queued_state2 = [7, 8] \<and> (7::nat) \<noteq> 8 \<and>
   request_buffer queued_state2 7 = Some (RequestData (PDict [(''input'', PFloat 4)]), 99) \<and>
   request_buffer queued_state2 8 = Some (RequestData (PDict [(''input'', PFloat 5)]), 98) \<and>
   (99::nat) \<noteq> 98 \<and> pipes queued_state2 99 = Open [] \<and> pipes queued_state2 98 = Open [] \<and>
   (case batched_loop_body SimpleBatchedAPI (Some py_square) 2 queued_state2 of
      Inl e \<Rightarrow> False
    | Inr s' \<Rightarrow> pipes s' 99 = Open [PDict [(''output'', PArray (Scalar 16))]] \<and>
               pipes s' 98 = Open [PDict [(''output'', PArray (Scalar 25))]] \<and>
               request_queue s' = [])"
proof -
  have q: "request_queue queued_state2 = [7, 8]" by (simp add: queued_state2_eq)
  have d: "(7::nat) \<noteq> 8" by simp
  have e1: "request_buffer queued_state2 7 = Some (RequestData (PDict [(''input'', PFloat 4)]), 99)"
    by (simp add: queued_state2_eq square_request_def)
  have e2: "request_buffer queued_state2 8 = Some (RequestData (PDict [(''input'', PFloat 5)]), 98)"
    by (simp add: queued_state2_eq square_request5_def)
  have o: "(99::nat) \<noteq> 98" by simp
  have w1: "pipes queued_state2 99 = Open []" by (simp add: queued_state2_eq initial_state_simps)
  have w2: "pipes queued_state2 98 = Open []" by (simp add: queued_state2_eq initial_state_simps)
  show ?thesis
    using batched_loop_square [OF q d e1 e2 o w1 w2] q e1 e2 w1 w2 by simp
qed

section \<open>The /predict handler\<close>


lemma get_from_pipe_received:
  "pipes s pipe_r = Open (v # rest) \<Longrightarrow>
   get_from_pipe pipe_r s = (Received v, s\<lparr>pipes := (pipes s)(pipe_r := Open rest)\<rparr>)"
  by (simp add: get_from_pipe_def)








section \<open>The chat handler\<close>

lemma chat_outcome:
  "chat_check request = None \<Longrightarrow>
   fst (chat counters fresh request others s) =
     (case aggregate counters 0 (chat_responses fresh request others s) [] (UsageInfo counters) of
        Inl e \<Rightarrow> Inl e
      | Inr (choices, usage) \<Rightarrow>
          Inr \<lparr>resp_model = chat_model request, resp_choices = choices, resp_usage = usage\<rparr>)"
  by (simp add: chat_def chat_responses_def chat_receivers_def chat_waiting_def chat_uids_def
      split: prod.splits sum.splits)

lemma chat_dispatch_length:
  "length (fst (chat_dispatch uids request receivers tasks s)) = length receivers + length uids"
  by (induction uids arbitrary: receivers tasks s) (auto split: prod.splits)

lemma chat_await_length:
  "length (fst (chat_await receivers others k responses s)) = length responses + length receivers"
  by (induction receivers arbitrary: k responses s) (auto split: prod.splits)

lemma chat_responses_length:
  "length (chat_responses fresh request others s) = nat (req_n request)"
  by (simp add: chat_responses_def chat_await_length chat_receivers_def chat_dispatch_length
      chat_uids_def)

subsection \<open>Usage counters\<close>

lemma usage_setattr_keys: "map fst (usage_setattr usage k v) = map fst usage"
  by (induction usage) (auto simp: usage_setattr_def)

lemma usage_add_pointwise:
  "distinct (map fst usage) \<Longrightarrow> distinct (map fst task) \<Longrightarrow>
   usage_add usage task =
     map (\<lambda>(k, v). (k, v + (case map_of task k of None \<Rightarrow> 0 | Some x \<Rightarrow> x))) usage"
proof (induction task arbitrary: usage)
  case Nil
  then show ?case by (simp add: usage_add_def)
next
  case (Cons kx task)
  obtain k x where kx: "kx = (k, x)" by (cases kx)
  let ?u = "usage_setattr usage k (usage_getattr usage k + x)"
  have keys: "distinct (map fst ?u)"
    using Cons.prems(1) by (simp add: usage_setattr_keys)
  have fresh: "map_of task k = None"
    using Cons.prems(2) kx by (simp add: map_of_eq_None_iff image_iff)
  have step: "usage_add usage (kx # task) = usage_add ?u task"
    by (simp add: usage_add_def kx)
  have "usage_add ?u task =
      map (\<lambda>(k, v). (k, v + (case map_of task k of None \<Rightarrow> 0 | Some x \<Rightarrow> x))) ?u"
    using Cons.IH [OF keys] Cons.prems(2) by simp
  also have "\<dots> =
      map (\<lambda>(k', v). (k', v + (case map_of (kx # task) k' of None \<Rightarrow> 0 | Some x \<Rightarrow> x))) usage"
    unfolding usage_setattr_def map_map
  proof (rule map_cong [OF refl])
    fix e
    assume mem: "e \<in> set usage"
    obtain k' v where e: "e = (k', v)" by (cases e)
    have "k' = k \<Longrightarrow> usage_getattr usage k = v"
      using Cons.prems(1) mem e by (simp add: usage_getattr_def)
    then show "((\<lambda>(k, v). (k, v + (case map_of task k of None \<Rightarrow> 0 | Some x \<Rightarrow> x))) \<circ>
        (\<lambda>(k', v'). if k' = k then (k', usage_getattr usage k + x) else (k', v'))) e =
        (case e of (k', v) \<Rightarrow>
          (k', v + (case map_of (kx # task) k' of None \<Rightarrow> 0 | Some x \<Rightarrow> x)))"
      using fresh by (auto simp: e kx)
  qed
  finally show ?case using step by simp
qed

lemma usage_add_counters:
  assumes "distinct counters"
  shows "usage_add (map (\<lambda>k. (k, f k)) counters) (map (\<lambda>k. (k, g k)) counters) =
         map (\<lambda>k. (k, f k + g k)) counters"
proof -
  have keys: "\<And>h :: string \<Rightarrow> int. map fst (map (\<lambda>k. (k, h k)) counters) = counters"
    by (simp add: comp_def)
  have look: "\<And>k. k \<in> set counters \<Longrightarrow> map_of (map (\<lambda>k. (k, g k)) counters) k = Some (g k)"
    by (simp add: map_of_map_restrict)
  show ?thesis
    using assms by (simp add: usage_add_pointwise keys comp_def look)
qed

lemma parse_fields_ok:
  "list_all (counter_ok u) ks \<Longrightarrow>
   parse_fields ks u = Inr (map (\<lambda>k. (k, counter_of u k)) ks)"
  by (induction ks) (auto simp: counter_ok_def counter_of_def split: option.splits pyval.splits)

lemma task_usage_of_arrived:
  "arrived counters r \<Longrightarrow>
   task_usage_of counters r = Inr (map (\<lambda>k. (k, sub_usage r k)) counters)"
  by (auto simp: arrived_def task_usage_of_def response_contains_def response_getitem_def
      parse_obj_def parse_fields_ok sub_usage_def UsageInfo_def
      split: pipe_result.splits pyval.splits option.splits)

lemma arrived_text: "arrived counters r \<Longrightarrow> response_getitem r ''text'' = Inr (sub_text r)"
  by (auto simp: arrived_def response_getitem_def sub_text_def
      split: pipe_result.splits pyval.splits option.splits)

lemma arrived_finish_reason:
  "arrived counters r \<Longrightarrow>
   response_get r ''finish_reason'' (PStr ''stop'') = Inr (sub_finish_reason r)"
  by (auto simp: arrived_def response_get_def sub_finish_reason_def
      split: pipe_result.splits pyval.splits option.splits)

lemma aggregate_arrived:
  assumes "distinct counters"
      and "list_all (arrived counters) rs"
  shows "aggregate counters i rs choices (map (\<lambda>k. (k, f k)) counters) =
         Inr (choices @ expected_choices i rs,
              map (\<lambda>k. (k, f k + sum_list (map (\<lambda>r. sub_usage r k) rs))) counters)"
  using assms(2)
proof (induction rs arbitrary: i choices f)
  case Nil
  then show ?case by (simp add: expected_choices_def)
next
  case (Cons r rs)
  have r: "arrived counters r" and rs: "list_all (arrived counters) rs"
    using Cons.prems by simp_all
  have add: "usage_add (map (\<lambda>k. (k, f k)) counters) (map (\<lambda>k. (k, sub_usage r k)) counters) =
      map (\<lambda>k. (k, f k + sub_usage r k)) counters"
    using assms(1) by (rule usage_add_counters)
  show ?case
    using Cons.IH [OF rs, of "Suc i" _ "\<lambda>k. f k + sub_usage r k"]
    by (simp add: arrived_text [OF r] arrived_finish_reason [OF r] task_usage_of_arrived [OF r]
        add expected_choices_def expected_choice_def add.assoc)
qed

text \<open>
  C5. A chat-completion fan-out whose sub-responses all arrive in good order. The handler
  returns a composite response whose list of choices has one choice per sub-request (its
  length is n), the i-th with index i, role "assistant", the text of the i-th sub-response as
  content and its finish reason, "stop" when it has none; the usage starts at zero and
  grows, counter by counter, by the usage of every sub-response, a usage or counter that is
  not reported counting as zero.
\<close>

theorem chat_aggregates:
  assumes "chat_check request = None"
      and "distinct counters"
      and "list_all (arrived counters) (chat_responses fresh request others s)"
  shows "fst (chat counters fresh request others s) =
           Inr \<lparr>resp_model = chat_model request,
                resp_choices = expected_choices 0 (chat_responses fresh request others s),
                resp_usage = expected_usage counters (chat_responses fresh request others s)\<rparr> \<and>
         length (expected_choices 0 (chat_responses fresh request others s)) =
           nat (req_n request) \<and>
         (\<forall>i < nat (req_n request).
            expected_choices 0 (chat_responses fresh request others s) ! i =
              \<lparr>choice_index = i,
               choice_message =
                 \<lparr>msg_role = ''assistant'',
                  msg_content = sub_text (chat_responses fresh request others s ! i)\<rparr>,
               choice_finish_reason =
                 sub_finish_reason (chat_responses fresh request others s ! i)\<rparr>) \<and>
         UsageInfo counters = map (\<lambda>k. (k, 0)) counters"
proof -
  let ?rs = "chat_responses fresh request others s"
  have agg: "aggregate counters 0 ?rs [] (UsageInfo counters) =
      Inr (expected_choices 0 ?rs, expected_usage counters ?rs)"
    using aggregate_arrived [OF assms(2) assms(3), of 0 "[]" "\<lambda>k. 0"]
    by (simp add: UsageInfo_def expected_usage_def)
  have len: "length (expected_choices 0 ?rs) = nat (req_n request)"
    by (simp add: expected_choices_def chat_responses_length)
  have nth: "\<forall>i < nat (req_n request).
      expected_choices 0 ?rs ! i = expected_choice i (?rs ! i)"
    by (simp add: expected_choices_def chat_responses_length nth_enumerate_eq)
  show ?thesis
    using chat_outcome [OF assms(1), of counters fresh others s] agg len nth
    by (simp add: expected_choice_def UsageInfo_def)
qed

lemma chat_dispatch_example:
  "chat_dispatch [10, 11] chat_request2 [] [] initial_state =
     ([99, 98], [10, 11],
      initial_state
        \<lparr>pipe_pool := map (\<lambda>i. (i, i)) [0..<98],
         request_buffer := [10 \<mapsto> (ChatRequest chat_request2, 99),
                            11 \<mapsto> (ChatRequest chat_request2, 98)],
         request_queue := [10, 11]\<rparr>)"
  by (simp add: new_pipe_def pool_initial upt_99 buffer_insert_def queue_put_def
      initial_state_simps butlast_append)

lemma chat_uids_example: "chat_uids fresh_uids chat_request2 = [10, 11]"
proof -
  have "[0..<nat 2] = [0, Suc 0]" by code_simp
  then show ?thesis
    by (simp add: chat_uids_def chat_request2_def fresh_uids_def)
qed

lemma chat_responses_example:
  "chat_responses fresh_uids chat_request2 example_replies initial_state =
     [Received reply_a, Received reply_b]"
  unfolding chat_responses_def chat_receivers_def chat_waiting_def chat_uids_example
    chat_dispatch_example fst_conv snd_conv
  by (simp add: example_replies_def send_suppress_def send_def log_call_def
      get_from_pipe_def initial_state_simps)

theorem chat_aggregates_witness:
  "chat_check chat_request2 = None \<and>
   distinct [''prompt'', ''completion'', ''total''] \<and>
   list_all (arrived [''prompt'', ''completion'', ''total''])
     (chat_responses fresh_uids chat_request2 example_replies initial_state) \<and>
   fst (chat [''prompt'', ''completion'', ''total''] fresh_uids chat_request2 example_replies
          initial_state) =
     Inr \<lparr>resp_model = ''litserve'',
          resp_choices =
            [\<lparr>choice_index = 0,
              choice_message = \<lparr>msg_role = ''assistant'', msg_content = PStr ''a''\<rparr>,
              choice_finish_reason = PStr ''stop''\<rparr>,
             \<lparr>choice_index = 1,
              choice_message = \<lparr>msg_role = ''assistant'', msg_content = PStr ''b''\<rparr>,
              choice_finish_reason = PStr ''stop''\<rparr>],
          resp_usage = [(''prompt'', 0), (''completion'', 0), (''total'', 5)]\<rparr>"
proof -
  have check: "chat_check chat_request2 = None"
    by (simp add: chat_check_def chat_request2_def)
  have names: "distinct [''prompt'', ''completion'', ''total'']" by simp
  have good: "list_all (arrived [''prompt'', ''completion'', ''total''])
      (chat_responses fresh_uids chat_request2 example_replies initial_state)"
    by (simp add: chat_responses_example arrived_def reply_a_def reply_b_def counter_ok_def)
  have model: "chat_model chat_request2 = ''litserve''"
    by (simp add: chat_model_def chat_request2_def)
  have choices: "expected_choices 0 [Received reply_a, Received reply_b] =
      [\<lparr>choice_index = 0,
        choice_message = \<lparr>msg_role = ''assistant'', msg_content = PStr ''a''\<rparr>,
        choice_finish_reason = PStr ''stop''\<rparr>,
       \<lparr>choice_index = 1,
        choice_message = \<lparr>msg_role = ''assistant'', msg_content = PStr ''b''\<rparr>,
        choice_finish_reason = PStr ''stop''\<rparr>]"
    by (simp add: expected_choices_def expected_choice_def enumerate_simps sub_text_def
        sub_finish_reason_def reply_a_def reply_b_def)
  have usage: "expected_usage [''prompt'', ''completion'', ''total'']
      [Received reply_a, Received reply_b] =
      [(''prompt'', 0), (''completion'', 0), (''total'', 5)]"
    by (simp add: expected_usage_def sub_usage_def counter_of_def reply_a_def reply_b_def)
  show ?thesis
    using chat_aggregates [OF check names good] check good
    by (simp add: chat_responses_example model choices usage)
qed

text \<open>
  C6. A chat-completion request that sets an unsupported parameter (stream true, stop set,
  a nonzero frequency or presence penalty, max_tokens set, or top_p other than 1.0) is
  rejected with status 400 before any dispatch: the handler raises the exception, schedules
  no cleanup and returns the state as it received it, so that no identifier is enqueued, no
  table entry inserted and no channel acquired.
\<close>

theorem chat_rejects_unsupported:
  assumes "req_stream request \<or> req_stop request \<noteq> None \<or>
           req_frequency_penalty request \<noteq> 0 \<or> req_presence_penalty request \<noteq> 0 \<or>
           req_max_tokens request \<noteq> None \<or> req_top_p request \<noteq> 1"
  shows "\<exists>detail. chat counters fresh request others s =
           (Inl (HTTPException 400 detail), [], s)"
proof -
  have "\<exists>detail. chat_check request = Some (HTTPException 400 detail)"
    using assms by (auto simp: chat_check_def)
  then show ?thesis
    by (auto simp: chat_def)
qed

theorem chat_rejects_unsupported_witness:
  "req_top_p chat_request_top_p \<noteq> 1 \<and>
   chat [''prompt'', ''completion'', ''total''] fresh_uids chat_request_top_p example_replies
     initial_state =
     (Inl (HTTPException 400 ''Parameter top_p not currently supported''), [], initial_state)"
proof -
  have top_p: "req_top_p chat_request_top_p \<noteq> 1"
    by (simp add: chat_request_top_p_def)
  have "\<exists>detail. chat [''prompt'', ''completion'', ''total''] fresh_uids chat_request_top_p
      example_replies initial_state = (Inl (HTTPException 400 detail), [], initial_state)"
    using chat_rejects_unsupported [of chat_request_top_p] top_p by blast
  moreover have "chat_check chat_request_top_p =
      Some (HTTPException 400 ''Parameter top_p not currently supported'')"
    by (simp add: chat_check_def chat_request_top_p_def chat_request2_def)
  ultimately show ?thesis
    using top_p by (auto simp: chat_def)
qed

subsection \<open>A sub-request that times out\<close>

lemma get_from_pipe_sentinel:
  "fst (get_from_pipe pipe_r s) = Sentinel e \<longleftrightarrow>
   \<not> poll pipe_r s \<and> e = HTTPException 504 ''Request timed out''"
  by (auto simp: get_from_pipe_def poll_def split: channel.splits list.splits)

lemma parse_fields_error: "parse_fields ks u = Inl e \<Longrightarrow> e = ValidationError"
  by (induction ks arbitrary: e) (auto split: option.splits pyval.splits sum.splits)

lemma response_getitem_error: "response_getitem r k = Inl e \<Longrightarrow> aggregation_error e"
  by (auto simp: response_getitem_def aggregation_error_def
      split: pipe_result.splits pyval.splits option.splits)

lemma response_get_error: "response_get r k d = Inl e \<Longrightarrow> aggregation_error e"
  by (auto simp: response_get_def aggregation_error_def
      split: pipe_result.splits pyval.splits option.splits)

lemma task_usage_of_error: "task_usage_of counters r = Inl e \<Longrightarrow> aggregation_error e"
  by (auto simp: task_usage_of_def response_contains_def parse_obj_def aggregation_error_def
      dest: response_getitem_error parse_fields_error
      split: pipe_result.splits pyval.splits option.splits sum.splits if_splits)

lemma aggregate_error:
  "aggregate counters i rs choices usage = Inl e \<Longrightarrow> aggregation_error e"
proof (induction rs arbitrary: i choices usage)
  case Nil
  then show ?case by simp
next
  case (Cons r rs)
  then show ?case
    by (auto split: sum.splits
        dest: response_getitem_error response_get_error task_usage_of_error)
qed

lemma aggregate_sentinel:
  "Sentinel x \<in> set rs \<Longrightarrow> \<exists>e. aggregate counters i rs choices usage = Inl e"
proof (induction rs arbitrary: i choices usage)
  case Nil
  then show ?case by simp
next
  case (Cons r rs)
  show ?case
  proof (cases "r = Sentinel x")
    case True
    then show ?thesis by (simp add: response_getitem_def)
  next
    case False
    then have "Sentinel x \<in> set rs" using Cons.prems by simp
    then show ?thesis
      using Cons.IH by (auto split: sum.splits)
  qed
qed

text \<open>
  C10. On the chat path a sub-request whose reply does not arrive in time does not make the
  handler raise the 504 exception. The await yields the HTTPException object as a value, it
  is appended to the responses unchecked, and the aggregation subscripts it like a
  sub-response: \<open>response["text"]\<close> raises TypeError on it. The handler ends with an
  exception of the aggregation, never with an HTTPException, whereas the /predict handler
  raises the object it received.
\<close>

theorem chat_timeout_not_504:
  assumes "chat_check request = None"
      and "Sentinel (HTTPException 504 ''Request timed out'') \<in>
             set (chat_responses fresh request others s)"
  shows "(\<exists>e. fst (chat counters fresh request others s) = Inl e \<and> aggregation_error e \<and>
              e \<noteq> HTTPException 504 ''Request timed out'') \<and>
         response_getitem (Sentinel (HTTPException 504 ''Request timed out'')) ''text'' =
           Inl TypeError \<and>
         predict_result (Sentinel (HTTPException 504 ''Request timed out'')) =
           Inl (HTTPException 504 ''Request timed out'')"
proof -
  obtain e where e: "aggregate counters 0 (chat_responses fresh request others s) []
      (UsageInfo counters) = Inl e"
    using aggregate_sentinel [OF assms(2)] by blast
  have kind: "aggregation_error e"
    using e by (rule aggregate_error)
  have "e \<noteq> HTTPException 504 ''Request timed out''"
    using kind by (auto simp: aggregation_error_def)
  moreover have "fst (chat counters fresh request others s) = Inl e"
    using chat_outcome [OF assms(1), of counters fresh others s] e by simp
  ultimately show ?thesis
    using kind by (simp add: response_getitem_def predict_result_def)
qed

lemma chat_responses_silent:
  "chat_responses fresh_uids chat_request2 no_replies initial_state =
     [Sentinel (HTTPException 504 ''Request timed out''),
      Sentinel (HTTPException 504 ''Request timed out'')]"
  unfolding chat_responses_def chat_receivers_def chat_waiting_def chat_uids_example
    chat_dispatch_example fst_conv snd_conv
  by (simp add: no_replies_def get_from_pipe_def initial_state_simps)

theorem chat_timeout_not_504_witness:
  "chat_check chat_request2 = None \<and>
   Sentinel (HTTPException 504 ''Request timed out'') \<in>
     set (chat_responses fresh_uids chat_request2 no_replies initial_state) \<and>
   fst (chat [''prompt'', ''completion'', ''total''] fresh_uids chat_request2 no_replies
          initial_state) = Inl TypeError"
proof -
  have check: "chat_check chat_request2 = None"
    by (simp add: chat_check_def chat_request2_def)
  have late: "Sentinel (HTTPException 504 ''Request timed out'') \<in>
      set (chat_responses fresh_uids chat_request2 no_replies initial_state)"
    by (simp add: chat_responses_silent)
  have "\<exists>e. fst (chat [''prompt'', ''completion'', ''total''] fresh_uids chat_request2
      no_replies initial_state) = Inl e"
    using chat_timeout_not_504 [OF check late] by blast
  moreover have "aggregate [''prompt'', ''completion'', ''total''] 0
      (chat_responses fresh_uids chat_request2 no_replies initial_state) []
      (UsageInfo [''prompt'', ''completion'', ''total'']) = Inl TypeError"
    by (simp add: chat_responses_silent response_getitem_def)
  ultimately show ?thesis
    using check late chat_outcome [OF check, of "[''prompt'', ''completion'', ''total'']"
        fresh_uids no_replies initial_state]
    by simp
qed



section \<open>Channel pairs after a request completes\<close>

lemma new_pipe_cases:
  assumes "pool_ok s"
  obtains p s1 where "new_pipe s = ((p, p), s1)"
    and "(p, p) \<notin> set (pipe_pool s1)"
    and "pool_ok s1"
    and "pipe_pool s1 = butlast (pipe_pool s)"
    and "p < next_pipe s1"
    and "next_pipe s \<le> next_pipe s1"
    and "p < next_pipe s \<longrightarrow> (p, p) \<in> set (pipe_pool s)"
    and "request_buffer s1 = request_buffer s"
    and "request_queue s1 = request_queue s"
proof (cases "pipe_pool s = []")
  case True
  show ?thesis
  proof (rule that [of "next_pipe s" "snd (new_pipe s)"])
    show "new_pipe s = ((next_pipe s, next_pipe s), snd (new_pipe s))"
      using True by (simp add: new_pipe_def Pipe_def)
  qed (use True in \<open>simp_all add: new_pipe_def Pipe_def pool_ok_def\<close>)
next
  case False
  obtain p q where l: "last (pipe_pool s) = (p, q)" by (cases "last (pipe_pool s)")
  have mem: "(p, q) \<in> set (pipe_pool s)"
    using False l last_in_set by metis
  have pq: "p = q" "q < next_pipe s"
    using assms mem by (auto simp: pool_ok_def list_all_iff)
  have split: "pipe_pool s = butlast (pipe_pool s) @ [(p, p)]"
    using False l pq by (metis append_butlast_last_id)
  have "distinct (butlast (pipe_pool s) @ [(p, p)])"
    using assms split by (simp add: pool_ok_def)
  then have notin: "(p, p) \<notin> set (butlast (pipe_pool s))" and d: "distinct (butlast (pipe_pool s))"
    by simp_all
  have all: "list_all (\<lambda>(pipe_s, pipe_r). pipe_s = pipe_r \<and> pipe_r < next_pipe s)
      (butlast (pipe_pool s))"
    using assms by (auto simp: pool_ok_def list_all_iff dest: in_set_butlastD)
  show ?thesis
  proof (rule that [of p "s\<lparr>pipe_pool := butlast (pipe_pool s)\<rparr>"])
    show "new_pipe s = ((p, p), s\<lparr>pipe_pool := butlast (pipe_pool s)\<rparr>)"
      using False l pq by (simp add: new_pipe_def)
  qed (use notin d all pq mem in \<open>simp_all add: pool_ok_def\<close>)
qed

lemma pool_ok_buffer_queue:
  "pool_ok (queue_put uid (buffer_insert uid' x c s)) = pool_ok s"
  by (simp add: pool_ok_def queue_put_def buffer_insert_def)

lemma get_from_pipe_pool: "pipe_pool (snd (get_from_pipe pipe_r s)) = pipe_pool s"
  by (auto simp: get_from_pipe_def split: channel.splits list.splits)

lemma cleanup_pool: "pipe_pool (cleanup uid s) = pipe_pool s"
  by (auto simp: cleanup_def buffer_pop_def split: option.splits)

lemma run_background_tasks_pool: "pipe_pool (run_background_tasks tasks s) = pipe_pool s"
  unfolding run_background_tasks_def
  by (induction tasks arbitrary: s) (simp_all add: cleanup_pool)

lemma chat_await_pool:
  "(\<And>k s'. pipe_pool (others k s') = pipe_pool s') \<Longrightarrow>
   pipe_pool (snd (chat_await receivers others k responses s)) = pipe_pool s"
proof (induction receivers arbitrary: k responses s)
  case Nil
  then show ?case by simp
next
  case (Cons r receivers)
  obtain data s' where g: "get_from_pipe r (others k s) = (data, s')"
    by (cases "get_from_pipe r (others k s)")
  have "pipe_pool s' = pipe_pool (others k s)"
    using get_from_pipe_pool [of r "others k s"] g by simp
  then have "pipe_pool s' = pipe_pool s" using Cons.prems by simp
  then show ?case
    using Cons.IH [OF Cons.prems, of "Suc k" "responses @ [data]" s'] g by simp
qed

lemma butlast_take_less:
  "take (length (butlast xs) - k) (butlast xs) = take (length xs - Suc k) xs"
  by (simp add: butlast_conv_take min_def)

lemma chat_dispatch_Cons:
  "new_pipe s = ((p, p), s1) \<Longrightarrow>
   chat_dispatch (uid # uids) request receivers tasks s =
     chat_dispatch uids request (receivers @ [p]) (tasks @ [uid])
       (queue_put uid (buffer_insert uid (ChatRequest request) p s1))"
  by simp

lemma chat_dispatch_ownership:
  assumes "pool_ok s"
      and "distinct receivers"
      and "\<forall>r \<in> set receivers. r < next_pipe s \<and> (r, r) \<notin> set (pipe_pool s)"
  shows "distinct (fst (chat_dispatch uids request receivers tasks s)) \<and>
         (\<forall>r \<in> set (fst (chat_dispatch uids request receivers tasks s)).
            (r, r) \<notin> set (pipe_pool (snd (snd (chat_dispatch uids request receivers tasks s))))) \<and>
         pool_ok (snd (snd (chat_dispatch uids request receivers tasks s))) \<and>
         pipe_pool (snd (snd (chat_dispatch uids request receivers tasks s))) =
           take (length (pipe_pool s) - length uids) (pipe_pool s)"
  using assms
proof (induction uids arbitrary: receivers tasks s)
  case Nil
  then show ?case by simp
next
  case (Cons uid uids)
  obtain p s1 where np: "new_pipe s = ((p, p), s1)"
    and held: "(p, p) \<notin> set (pipe_pool s1)"
    and ok1: "pool_ok s1"
    and pool1: "pipe_pool s1 = butlast (pipe_pool s)"
    and below: "p < next_pipe s1"
    and grows: "next_pipe s \<le> next_pipe s1"
    and old: "p < next_pipe s \<longrightarrow> (p, p) \<in> set (pipe_pool s)"
    using Cons.prems(1) by (rule new_pipe_cases)
  let ?s3 = "queue_put uid (buffer_insert uid (ChatRequest request) p s1)"
  have pool3: "pipe_pool ?s3 = butlast (pipe_pool s)"
    by (simp add: queue_put_def buffer_insert_def pool1)
  have next3: "next_pipe ?s3 = next_pipe s1"
    by (simp add: queue_put_def buffer_insert_def)
  have ok3: "pool_ok ?s3"
    using ok1 by (simp add: pool_ok_buffer_queue)
  have new: "p \<notin> set receivers"
    using Cons.prems(3) old by auto
  have d3: "distinct (receivers @ [p])"
    using Cons.prems(2) new by simp
  have inv3: "\<forall>r \<in> set (receivers @ [p]). r < next_pipe ?s3 \<and> (r, r) \<notin> set (pipe_pool ?s3)"
    using Cons.prems(3) grows below held pool1 next3 pool3
    by (auto dest: in_set_butlastD)
  have step: "chat_dispatch (uid # uids) request receivers tasks s =
      chat_dispatch uids request (receivers @ [p]) (tasks @ [uid]) ?s3"
    using np by (rule chat_dispatch_Cons)
  have shrink: "take (length (pipe_pool ?s3) - length uids) (pipe_pool ?s3) =
      take (length (pipe_pool s) - length (uid # uids)) (pipe_pool s)"
    by (simp only: pool3 butlast_take_less length_Cons)
  show ?case
    unfolding step shrink [symmetric]
    by (rule Cons.IH [OF ok3 d3 inv3])
qed

text \<open>
  What the two handlers do to the pool, from any pool in order. The acquisition takes the
  last pair out of the pool (or makes a fresh pair when the pool is empty), and no later
  step of a handler touches the pool: not the wait, not the outcome, not the deferred
  cleanup. No handler calls dispose_pipe. The pairs that the sub-requests of one fan-out
  acquire are pairwise different and are not in the pool.
\<close>

lemma handlers_never_release:
  assumes "pool_ok s"
  shows "fst (fst (new_pipe s)) = fst (predict_dispatch uid d s) \<and>
         snd (fst (new_pipe s)) = fst (predict_dispatch uid d s) \<and>
         (fst (predict_dispatch uid d s), fst (predict_dispatch uid d s)) \<notin>
           set (pipe_pool (snd (snd (predict_dispatch uid d s)))) \<and>
         pipe_pool (snd (snd (predict_dispatch uid d s))) = butlast (pipe_pool s) \<and>
         (pipe_pool (others (snd (snd (predict_dispatch uid d s)))) =
            pipe_pool (snd (snd (predict_dispatch uid d s))) \<longrightarrow>
          pipe_pool (snd (serve_predict uid d others s)) = butlast (pipe_pool s)) \<and>
         distinct (chat_receivers fresh request s) \<and>
         (\<forall>r \<in> set (chat_receivers fresh request s).
            (r, r) \<notin> set (pipe_pool (chat_waiting fresh request s))) \<and>
         pipe_pool (chat_waiting fresh request s) =
           take (length (pipe_pool s) - nat (req_n request)) (pipe_pool s) \<and>
         ((\<forall>k s'. pipe_pool (many k s') = pipe_pool s') \<longrightarrow>
          pipe_pool (snd (chat_await (chat_receivers fresh request s) many 0 []
            (chat_waiting fresh request s))) =
            take (length (pipe_pool s) - nat (req_n request)) (pipe_pool s)) \<and>
         (chat_check request = None \<longrightarrow>
          snd (snd (chat counters fresh request many s)) =
            snd (chat_await (chat_receivers fresh request s) many 0 []
              (chat_waiting fresh request s)))"
proof -
  obtain p s1 where np: "new_pipe s = ((p, p), s1)"
    and held: "(p, p) \<notin> set (pipe_pool s1)"
    and pool1: "pipe_pool s1 = butlast (pipe_pool s)"
    using assms by (rule new_pipe_cases)
  have disp: "predict_dispatch uid d s =
      (p, [uid], queue_put uid (buffer_insert uid (RequestData d) p s1))"
    by (simp add: predict_dispatch_def np)
  have pool3: "pipe_pool (queue_put uid (buffer_insert uid (RequestData d) p s1)) =
      butlast (pipe_pool s)"
    by (simp add: queue_put_def buffer_insert_def pool1)
  have served: "pipe_pool (snd (serve_predict uid d others s)) =
      pipe_pool (others (snd (snd (predict_dispatch uid d s))))"
    by (simp add: serve_predict_def predict_def disp run_background_tasks_pool
        get_from_pipe_pool split: prod.splits)
       (metis get_from_pipe_pool snd_conv)
  have chat: "distinct (chat_receivers fresh request s) \<and>
      (\<forall>r \<in> set (chat_receivers fresh request s).
         (r, r) \<notin> set (pipe_pool (chat_waiting fresh request s))) \<and>
      pool_ok (chat_waiting fresh request s) \<and>
      pipe_pool (chat_waiting fresh request s) =
        take (length (pipe_pool s) - nat (req_n request)) (pipe_pool s)"
  proof -
    have n: "length (chat_uids fresh request) = nat (req_n request)"
      by (simp add: chat_uids_def)
    have "distinct ([] :: conn list)"
      and "\<forall>r \<in> set ([] :: conn list). r < next_pipe s \<and> (r, r) \<notin> set (pipe_pool s)"
      by simp_all
    from chat_dispatch_ownership [OF assms this, of "chat_uids fresh request" request "[]"]
    show ?thesis
      unfolding chat_receivers_def chat_waiting_def n .
  qed
  have await: "(\<forall>k s'. pipe_pool (many k s') = pipe_pool s') \<longrightarrow>
      pipe_pool (snd (chat_await (chat_receivers fresh request s) many 0 []
        (chat_waiting fresh request s))) =
        take (length (pipe_pool s) - nat (req_n request)) (pipe_pool s)"
    using chat chat_await_pool [of many] by simp
  have a: "fst (fst (new_pipe s)) = fst (predict_dispatch uid d s)"
    and b: "snd (fst (new_pipe s)) = fst (predict_dispatch uid d s)"
    by (simp_all add: np disp)
  have c: "(fst (predict_dispatch uid d s), fst (predict_dispatch uid d s)) \<notin>
      set (pipe_pool (snd (snd (predict_dispatch uid d s))))"
    using held by (simp add: disp pool3 pool1)
  have e: "pipe_pool (snd (snd (predict_dispatch uid d s))) = butlast (pipe_pool s)"
    by (simp add: disp pool3)
  have f: "pipe_pool (others (snd (snd (predict_dispatch uid d s)))) =
      pipe_pool (snd (snd (predict_dispatch uid d s))) \<longrightarrow>
      pipe_pool (snd (serve_predict uid d others s)) = butlast (pipe_pool s)"
    using served e by simp
  have final: "chat_check request = None \<longrightarrow>
      snd (snd (chat counters fresh request many s)) =
        snd (chat_await (chat_receivers fresh request s) many 0 []
          (chat_waiting fresh request s))"
    by (simp add: chat_def chat_receivers_def chat_waiting_def chat_uids_def
        split: prod.splits sum.splits)
  show ?thesis
    using a b c e f chat await final by blast
qed

lemma send_suppress_pool: "pipe_pool (send_suppress c v s) = pipe_pool s"
  by (auto simp: send_suppress_def send_def log_call_def split: channel.splits)

lemma single_loop_body_pool:
  "single_loop_body lit_api self s = Inr s' \<Longrightarrow> pipe_pool s' = pipe_pool s"
  by (auto simp: single_loop_body_def queue_get_def buffer_pop_def send_suppress_pool log_call_def
      split: list.splits option.splits sum.splits prod.splits)

lemma worker_pass_pool: "pipe_pool (worker_pass s) = pipe_pool s"
  by (auto simp: worker_pass_def single_loop_body_pool split: sum.splits)

lemma predict_dispatch_initial:
  "predict_dispatch 7 square_request initial_state = (99, [7], queued_state)"
  by (simp add: predict_dispatch_def queued_state_eq new_pipe_initial buffer_insert_def
      queue_put_def initial_state_simps)

lemma worker_pass_queued:
  "worker_pass queued_state =
     queued_state
       \<lparr>request_queue := [],
        request_buffer := Map.empty,
        call_log :=
          [CDecode (RequestData square_request), CPredict (PFloat 4), CEncode (PFloat 16),
           CSend 99 (PDict [(''output'', PFloat 16)])],
        pipes := (pipes queued_state)(99 := Open [PDict [(''output'', PFloat 16)]])\<rparr>"
  by (simp add: worker_pass_def single_loop_body_def queue_get_def buffer_pop_def
      SimpleLitAPI_def request_input_def call_model_def py_square_def encode_output_def
      send_suppress_def send_def log_call_def queued_state_eq square_request_def
      initial_state_simps)

lemma serve_predict_square:
  "serve_predict 7 square_request worker_pass initial_state =
     (Inr (PDict [(''output'', PFloat 16)]),
      queued_state
        \<lparr>request_queue := [],
         request_buffer := Map.empty,
         call_log :=
           [CDecode (RequestData square_request), CPredict (PFloat 4), CEncode (PFloat 16),
            CSend 99 (PDict [(''output'', PFloat 16)])],
         pipes := (pipes queued_state)(99 := Open [])\<rparr>)"
  unfolding serve_predict_def predict_def predict_dispatch_initial
  by (simp add: worker_pass_queued get_from_pipe_def predict_result_def
      run_background_tasks_def cleanup_def buffer_pop_def)

text \<open>
  C8. The channel pair that a request acquires on arrival is to be given back to the pool
  (or discarded when the pool is full) after the request completes, so that a pair is
  always either free in the pool or held by one request in flight. The /predict request
  with identifier 7 acquires the pair 99 from the initial pool, a worker answers it and the
  handler returns the reply; the deferred cleanup has run. Afterwards no request is in
  flight: the queue and the table are empty. The pool holds 99 pairs, far below its maximum
  of 1000, and the pair 99 is not among them: it is neither free nor held, it has not been
  given back and nothing was discarded for lack of room. The handler never calls
  dispose_pipe.
\<close>

theorem predict_pair_not_returned:
  "fst (new_pipe initial_state) = (99, 99) \<and>
   fst (serve_predict 7 square_request worker_pass initial_state) =
     Inr (PDict [(''output'', PFloat 16)]) \<and>
   request_queue (snd (serve_predict 7 square_request worker_pass initial_state)) = [] \<and>
   request_buffer (snd (serve_predict 7 square_request worker_pass initial_state)) = Map.empty \<and>
   (99, 99) \<notin> set (pipe_pool (snd (serve_predict 7 square_request worker_pass initial_state))) \<and>
   length (pipe_pool (snd (serve_predict 7 square_request worker_pass initial_state))) = 99 \<and>
   max_pool_size (snd (serve_predict 7 square_request worker_pass initial_state)) = 1000"
  by (auto simp: serve_predict_square new_pipe_initial queued_state_eq initial_state_simps)

lemma pool_ok_initial: "pool_ok initial_state"
  by (simp add: pool_ok_def initial_state_def initial_pool_size_def distinct_map inj_on_def
      list_all_iff)

lemma handlers_never_release_example:
  "pool_ok initial_state \<and>
   pipe_pool (worker_pass (snd (snd (predict_dispatch 7 square_request initial_state)))) =
     pipe_pool (snd (snd (predict_dispatch 7 square_request initial_state))) \<and>
   pipe_pool (snd (serve_predict 7 square_request worker_pass initial_state)) =
     butlast (pipe_pool initial_state) \<and>
   (99, 99) \<notin> set (pipe_pool (snd (snd (predict_dispatch 7 square_request initial_state)))) \<and>
   chat_receivers fresh_uids chat_request2 initial_state = [99, 98] \<and>
   distinct (chat_receivers fresh_uids chat_request2 initial_state) \<and>
   pipe_pool (chat_waiting fresh_uids chat_request2 initial_state) =
     take (length (pipe_pool initial_state) - nat (req_n chat_request2)) (pipe_pool initial_state) \<and>
   pipe_pool (snd (chat_await (chat_receivers fresh_uids chat_request2 initial_state)
       no_replies 0 [] (chat_waiting fresh_uids chat_request2 initial_state))) =
     take (length (pipe_pool initial_state) - nat (req_n chat_request2)) (pipe_pool initial_state) \<and>
   chat_check chat_request2 = None \<and>
   pipe_pool (snd (snd (chat [''prompt'', ''completion'', ''total''] fresh_uids chat_request2
       no_replies initial_state))) =
     take (length (pipe_pool initial_state) - nat (req_n chat_request2)) (pipe_pool initial_state)"
proof -
  note th = handlers_never_release [OF pool_ok_initial,
      of 7 square_request worker_pass fresh_uids chat_request2 no_replies
        "[''prompt'', ''completion'', ''total'']"]
  have quiet: "pipe_pool (worker_pass (snd (snd (predict_dispatch 7 square_request initial_state)))) =
      pipe_pool (snd (snd (predict_dispatch 7 square_request initial_state)))"
    by (rule worker_pass_pool)
  have silent: "\<forall>k s'. pipe_pool (no_replies k s') = pipe_pool s'"
    by (simp add: no_replies_def)
  have receivers: "chat_receivers fresh_uids chat_request2 initial_state = [99, 98]"
    unfolding chat_receivers_def chat_uids_example chat_dispatch_example by simp
  have first: "fst (predict_dispatch 7 square_request initial_state) = 99"
    by (simp add: predict_dispatch_initial)
  have held: "(99, 99) \<notin>
      set (pipe_pool (snd (snd (predict_dispatch 7 square_request initial_state))))"
    using th first by metis
  have check: "chat_check chat_request2 = None"
    by (simp add: chat_check_def chat_request2_def)
  have after: "pipe_pool (snd (chat_await (chat_receivers fresh_uids chat_request2 initial_state)
      no_replies 0 [] (chat_waiting fresh_uids chat_request2 initial_state))) =
      take (length (pipe_pool initial_state) - nat (req_n chat_request2)) (pipe_pool initial_state)"
    using th silent by blast
  have final: "snd (snd (chat [''prompt'', ''completion'', ''total''] fresh_uids chat_request2
      no_replies initial_state)) =
      snd (chat_await (chat_receivers fresh_uids chat_request2 initial_state)
        no_replies 0 [] (chat_waiting fresh_uids chat_request2 initial_state))"
    using th check by blast
  show ?thesis
    using th quiet silent receivers held pool_ok_initial check after final by metis
qed



section \<open>Devices and replicas\<close>

lemma init_devices_cpu: "init_devices ''cpu'' devices = Some [DevStr ''cpu'']"
  by (simp add: init_devices_def)

lemma init_devices_count:
  "accelerator = ''cuda'' \<or> accelerator = ''gpu'' \<Longrightarrow>
   init_devices accelerator (DeviceCount k) =
     Some (map (\<lambda>i. DevGroup [accelerator @ '':'' @ str_int (int i)]) [0..<nat k])"
  by (auto simp: init_devices_def device_identifiers_def comp_def)

lemma init_devices_list:
  "accelerator = ''cuda'' \<or> accelerator = ''gpu'' \<Longrightarrow>
   init_devices accelerator (DeviceList (map DeviceIndex idx)) =
     Some (map (\<lambda>i. DevGroup [accelerator @ '':'' @ str_int i]) idx)"
  by (auto simp: init_devices_def device_identifiers_def comp_def)

lemma list_times_length: "length (list_times xs k) = length xs * nat k"
  by (simp add: list_times_def length_concat sum_list_replicate)

lemma concat_replicate_nth:
  "j < length xs * n \<Longrightarrow> concat (replicate n xs) ! j = xs ! (j mod length xs)"
proof (induction n arbitrary: j)
  case 0
  then show ?case by simp
next
  case (Suc n)
  show ?case
  proof (cases "j < length xs")
    case True
    then show ?thesis by (simp add: nth_append)
  next
    case False
    then have "j - length xs < length xs * n"
      using Suc.prems by simp
    then have "concat (replicate n xs) ! (j - length xs) = xs ! ((j - length xs) mod length xs)"
      by (rule Suc.IH)
    then show ?thesis
      using False by (simp add: nth_append le_mod_geq)
  qed
qed

lemma list_times_nth:
  "j < length xs * nat k \<Longrightarrow> list_times xs k ! j = xs ! (j mod length xs)"
  by (simp add: list_times_def concat_replicate_nth)

lemma map_enumerate_nth:
  "map (\<lambda>(j, x). f j x) (enumerate 0 xs) = map (\<lambda>j. f j (xs ! j)) [0..<length xs]"
  by (rule nth_equalityI) (simp_all add: nth_enumerate_eq)

lemma lifespan_processes:
  assumes "app_devices a = Some devs"
  shows "lifespan a =
     Inr (map (\<lambda>j. \<lparr>proc_device =
                       (if device_len (devs ! (j mod length devs)) = 1
                        then device_first (devs ! (j mod length devs))
                        else devs ! (j mod length devs)),
                     proc_worker_id = j,
                     proc_max_batch_size = app_max_batch_size a\<rparr>)
            [0..<length devs * nat (app_workers_per_device a)])"
proof -
  let ?xs = "list_times devs (app_workers_per_device a)"
  have "map (\<lambda>(worker_id, dev).
           \<lparr>proc_device = (if device_len dev = 1 then device_first dev else dev),
            proc_worker_id = worker_id,
            proc_max_batch_size = app_max_batch_size a\<rparr>) (enumerate 0 ?xs) =
        map (\<lambda>j. \<lparr>proc_device = (if device_len (?xs ! j) = 1 then device_first (?xs ! j)
                                  else ?xs ! j),
                   proc_worker_id = j,
                   proc_max_batch_size = app_max_batch_size a\<rparr>) [0..<length ?xs]"
    by (rule map_enumerate_nth)
  also have "\<dots> =
        map (\<lambda>j. \<lparr>proc_device =
                       (if device_len (devs ! (j mod length devs)) = 1
                        then device_first (devs ! (j mod length devs))
                        else devs ! (j mod length devs)),
                   proc_worker_id = j,
                   proc_max_batch_size = app_max_batch_size a\<rparr>)
            [0..<length devs * nat (app_workers_per_device a)]"
    by (rule map_cong) (simp_all add: list_times_length list_times_nth)
  finally show ?thesis
    using assms by (simp add: lifespan_def)
qed

subsection \<open>Setup runs once, before the loop\<close>

lemma send_suppress_log:
  "call_log (send_suppress c v s) = call_log s @ [CSend c v]"
  by (auto simp: send_suppress_def send_def log_call_def split: channel.splits)

lemma single_loop_body_log:
  "single_loop_body lit_api self s = Inr s' \<Longrightarrow>
   \<exists>cs. call_log s' = call_log s @ cs \<and> list_all (\<lambda>c. \<not> is_setup c) cs"
  by (auto simp: single_loop_body_def queue_get_def buffer_pop_def send_suppress_log
      log_call_def is_setup_def
      split: list.splits option.splits sum.splits prod.splits)

lemma single_loop_log:
  "single_loop lit_api self fuel s = Inr s' \<Longrightarrow>
   \<exists>cs. call_log s' = call_log s @ cs \<and> list_all (\<lambda>c. \<not> is_setup c) cs"
proof (induction fuel arbitrary: s)
  case 0
  then show ?case by simp
next
  case (Suc fuel)
  then obtain s1 where b: "single_loop_body lit_api self s = Inr s1"
    and r: "single_loop lit_api self fuel s1 = Inr s'"
    by (auto split: sum.splits)
  obtain cs1 where c1: "call_log s1 = call_log s @ cs1" "list_all (\<lambda>c. \<not> is_setup c) cs1"
    using single_loop_body_log [OF b] by blast
  obtain cs2 where c2: "call_log s' = call_log s1 @ cs2" "list_all (\<lambda>c. \<not> is_setup c) cs2"
    using Suc.IH [OF r] by blast
  show ?case
    using c1 c2 by (intro exI [of _ "cs1 @ cs2"]) simp
qed

lemma collect_batch_log:
  "collect_batch lit_api self k inputs senders s = Inr (inputs', senders', s') \<Longrightarrow>
   \<exists>cs. call_log s' = call_log s @ cs \<and> list_all (\<lambda>c. \<not> is_setup c) cs"
proof (induction k arbitrary: inputs senders s)
  case 0
  then show ?case by simp
next
  case (Suc k)
  show ?case
  proof (cases "request_queue s")
    case Nil
    then show ?thesis using Suc.prems by (simp add: queue_get_def)
  next
    case (Cons uid rest)
    let ?s1 = "s\<lparr>request_queue := rest\<rparr>"
    show ?thesis
    proof (cases "request_buffer s uid")
      case None
      then have "collect_batch lit_api self k inputs senders ?s1 = Inr (inputs', senders', s')"
        using Suc.prems Cons by (simp add: queue_get_def buffer_pop_def)
      from Suc.IH [OF this] show ?thesis by simp
    next
      case (Some entry)
      obtain x_enc pipe_s where entry: "entry = (x_enc, pipe_s)" by (cases entry)
      let ?s2 = "?s1\<lparr>request_buffer := (request_buffer ?s1)(uid := None)\<rparr>"
      obtain x where "api_decode_request lit_api self x_enc = Inr x"
        and rec: "collect_batch lit_api self k (inputs @ [x]) (senders @ [pipe_s])
            (log_call (CDecode x_enc) ?s2) = Inr (inputs', senders', s')"
        using Suc.prems Cons Some entry
        by (auto simp: queue_get_def buffer_pop_def split: sum.splits)
      obtain cs where "call_log s' = call_log (log_call (CDecode x_enc) ?s2) @ cs"
        and "list_all (\<lambda>c. \<not> is_setup c) cs"
        using Suc.IH [OF rec] by blast
      then show ?thesis
        by (intro exI [of _ "CDecode x_enc # cs"]) (simp add: log_call_def is_setup_def)
    qed
  qed
qed

lemma send_outputs_log:
  "send_outputs lit_api self outs s = Inr s' \<Longrightarrow>
   \<exists>cs. call_log s' = call_log s @ cs \<and> list_all (\<lambda>c. \<not> is_setup c) cs"
proof (induction outs arbitrary: s)
  case Nil
  then show ?case by simp
next
  case (Cons po outs)
  obtain pipe_s y where po: "po = (pipe_s, y)" by (cases po)
  obtain y_enc where "api_encode_response lit_api self y = Inr y_enc"
    and rec: "send_outputs lit_api self outs (send_suppress pipe_s y_enc (log_call (CEncode y) s)) =
        Inr s'"
    using Cons.prems po by (auto split: sum.splits)
  obtain cs where "call_log s' =
      call_log (send_suppress pipe_s y_enc (log_call (CEncode y) s)) @ cs"
    and "list_all (\<lambda>c. \<not> is_setup c) cs"
    using Cons.IH [OF rec] by blast
  then show ?case
    by (intro exI [of _ "CEncode y # CSend pipe_s y_enc # cs"])
       (simp add: send_suppress_log log_call_def is_setup_def)
qed

lemma batched_loop_body_log:
  assumes "batched_loop_body lit_api self max_batch_size s = Inr s'"
  shows "\<exists>cs. call_log s' = call_log s @ cs \<and> list_all (\<lambda>c. \<not> is_setup c) cs"
proof -
  obtain inputs senders s1 where
    col: "collect_batch lit_api self (nat max_batch_size) [] [] s = Inr (inputs, senders, s1)"
    using assms by (auto simp: batched_loop_body_def split: sum.splits)
  obtain cs1 where c1: "call_log s1 = call_log s @ cs1" "list_all (\<lambda>c. \<not> is_setup c) cs1"
    using collect_batch_log [OF col] by blast
  show ?thesis
  proof (cases "inputs = []")
    case True
    then have "s' = s1" using assms col by (simp add: batched_loop_body_def)
    then show ?thesis using c1 by blast
  next
    case False
    obtain x y outputs where
      snd: "send_outputs lit_api self (zip senders outputs)
          (log_call (CUnbatch y) (log_call (CPredict x) (log_call (CBatch inputs) s1))) = Inr s'"
      using assms col False by (auto simp: batched_loop_body_def split: sum.splits)
    obtain cs2 where "call_log s' =
        call_log (log_call (CUnbatch y) (log_call (CPredict x) (log_call (CBatch inputs) s1))) @ cs2"
      and "list_all (\<lambda>c. \<not> is_setup c) cs2"
      using send_outputs_log [OF snd] by blast
    then show ?thesis
      using c1
      by (intro exI [of _ "cs1 @ CBatch inputs # CPredict x # CUnbatch y # cs2"])
         (simp add: log_call_def is_setup_def)
  qed
qed

lemma batched_loop_log:
  "batched_loop lit_api self max_batch_size fuel s = Inr s' \<Longrightarrow>
   \<exists>cs. call_log s' = call_log s @ cs \<and> list_all (\<lambda>c. \<not> is_setup c) cs"
proof (induction fuel arbitrary: s)
  case 0
  then show ?case by simp
next
  case (Suc fuel)
  then obtain s1 where b: "batched_loop_body lit_api self max_batch_size s = Inr s1"
    and r: "batched_loop lit_api self max_batch_size fuel s1 = Inr s'"
    by (auto split: sum.splits)
  obtain cs1 where c1: "call_log s1 = call_log s @ cs1" "list_all (\<lambda>c. \<not> is_setup c) cs1"
    using batched_loop_body_log [OF b] by blast
  obtain cs2 where c2: "call_log s' = call_log s1 @ cs2" "list_all (\<lambda>c. \<not> is_setup c) cs2"
    using Suc.IH [OF r] by blast
  show ?case
    using c1 c2 by (intro exI [of _ "cs1 @ cs2"]) simp
qed

lemma inference_worker_setup_once:
  assumes "inference_worker lit_api self dev worker_id max_batch_size fuel s = Inr s'"
  shows "\<exists>cs. call_log s' = call_log s @ CSetup dev # cs \<and> list_all (\<lambda>c. \<not> is_setup c) cs"
proof -
  obtain self' where "api_setup lit_api dev self = Inr self'"
    and loop: "(if max_batch_size > 1
        then batched_loop lit_api self' max_batch_size fuel (log_call (CSetup dev) s)
        else single_loop lit_api self' fuel (log_call (CSetup dev) s)) = Inr s'"
    using assms by (auto simp: inference_worker_def split: sum.splits)
  have "\<exists>cs. call_log s' = call_log (log_call (CSetup dev) s) @ cs \<and>
      list_all (\<lambda>c. \<not> is_setup c) cs"
    using loop batched_loop_log single_loop_log by (auto split: if_splits)
  then show ?thesis
    by (simp add: log_call_def)
qed

text \<open>
  C9. The device list at startup and the replicas. For the CPU accelerator the list is the
  single logical device "cpu". For a cuda or gpu accelerator with a device count k it has
  one identifier family:index for each index below k, and with a list of indices one
  identifier family:index for each index of the list. lifespan replicates the list by the
  workers-per-device factor and starts exactly one process for every element of the
  replicated list: with d devices and w workers per device, d * w processes, the j-th with
  worker id j on the device at position j mod d. Every process runs inference_worker: when
  it gets through its first passes, its calls began with one setup on its own device, and
  the loop that followed made no other.
\<close>

theorem replicas_per_device:
  assumes "accelerator = ''cuda'' \<or> accelerator = ''gpu''"
  shows "init_devices ''cpu'' devices = Some [DevStr ''cpu''] \<and>
         init_devices accelerator (DeviceCount k) =
           Some (map (\<lambda>i. DevGroup [accelerator @ '':'' @ str_int (int i)]) [0..<nat k]) \<and>
         init_devices accelerator (DeviceList (map DeviceIndex idx)) =
           Some (map (\<lambda>i. DevGroup [accelerator @ '':'' @ str_int i]) idx) \<and>
         lifespan (LitServer ''cpu'' devices w t b) =
           Inr (map (\<lambda>j. \<lparr>proc_device = DevStr ''cpu'', proc_worker_id = j,
                           proc_max_batch_size = b\<rparr>)
                  [0..<nat w]) \<and>
         lifespan (LitServer accelerator (DeviceCount k) w t b) =
           Inr (map (\<lambda>j. \<lparr>proc_device = DevStr (accelerator @ '':'' @ str_int (int (j mod nat k))),
                           proc_worker_id = j, proc_max_batch_size = b\<rparr>)
                  [0..<nat k * nat w]) \<and>
         lifespan (LitServer accelerator (DeviceList (map DeviceIndex idx)) w t b) =
           Inr (map (\<lambda>j. \<lparr>proc_device =
                             DevStr (accelerator @ '':'' @ str_int (idx ! (j mod length idx))),
                           proc_worker_id = j, proc_max_batch_size = b\<rparr>)
                  [0..<length idx * nat w]) \<and>
         (run_process lit_api self p fuel s = Inr s' \<longrightarrow>
            (\<exists>cs. call_log s' = call_log s @ CSetup (proc_device p) # cs \<and>
                  list_all (\<lambda>c. \<not> is_setup c) cs))"
proof -
  have cpu: "lifespan (LitServer ''cpu'' devices w t b) =
      Inr (map (\<lambda>j. \<lparr>proc_device = DevStr ''cpu'', proc_worker_id = j,
                      proc_max_batch_size = b\<rparr>) [0..<nat w])"
    using lifespan_processes [of "LitServer ''cpu'' devices w t b" "[DevStr ''cpu'']"]
    by (simp add: LitServer_def init_devices_cpu device_len_def)
  have count: "lifespan (LitServer accelerator (DeviceCount k) w t b) =
      Inr (map (\<lambda>j. \<lparr>proc_device = DevStr (accelerator @ '':'' @ str_int (int (j mod nat k))),
                      proc_worker_id = j, proc_max_batch_size = b\<rparr>) [0..<nat k * nat w])"
  proof -
    have pos: "\<And>j. j < nat k * nat w \<Longrightarrow> j mod nat k < nat k"
      by (metis mod_less_divisor mult_0 not_gr_zero not_less_zero)
    have "lifespan (LitServer accelerator (DeviceCount k) w t b) =
        Inr (map (\<lambda>j. \<lparr>proc_device =
            (if device_len (map (\<lambda>i. DevGroup [accelerator @ '':'' @ str_int (int i)]) [0..<nat k] !
                  (j mod nat k)) = 1
             then device_first (map (\<lambda>i. DevGroup [accelerator @ '':'' @ str_int (int i)]) [0..<nat k] !
                  (j mod nat k))
             else map (\<lambda>i. DevGroup [accelerator @ '':'' @ str_int (int i)]) [0..<nat k] !
                  (j mod nat k)),
            proc_worker_id = j, proc_max_batch_size = b\<rparr>) [0..<nat k * nat w])"
      using lifespan_processes [of "LitServer accelerator (DeviceCount k) w t b"
          "map (\<lambda>i. DevGroup [accelerator @ '':'' @ str_int (int i)]) [0..<nat k]"]
        init_devices_count [OF assms, of k]
      by (simp add: LitServer_def)
    also have "\<dots> = Inr (map (\<lambda>j. \<lparr>proc_device =
          DevStr (accelerator @ '':'' @ str_int (int (j mod nat k))),
          proc_worker_id = j, proc_max_batch_size = b\<rparr>) [0..<nat k * nat w])"
      using pos by (simp add: device_len_def device_first_def)
    finally show ?thesis .
  qed
  have list: "lifespan (LitServer accelerator (DeviceList (map DeviceIndex idx)) w t b) =
      Inr (map (\<lambda>j. \<lparr>proc_device =
                        DevStr (accelerator @ '':'' @ str_int (idx ! (j mod length idx))),
                      proc_worker_id = j, proc_max_batch_size = b\<rparr>) [0..<length idx * nat w])"
  proof -
    have pos: "\<And>j. j < length idx * nat w \<Longrightarrow> j mod length idx < length idx"
      by (metis mod_less_divisor mult_0 not_gr_zero not_less_zero)
    have "lifespan (LitServer accelerator (DeviceList (map DeviceIndex idx)) w t b) =
        Inr (map (\<lambda>j. \<lparr>proc_device =
            (if device_len (map (\<lambda>i. DevGroup [accelerator @ '':'' @ str_int i]) idx !
                  (j mod length idx)) = 1
             then device_first (map (\<lambda>i. DevGroup [accelerator @ '':'' @ str_int i]) idx !
                  (j mod length idx))
             else map (\<lambda>i. DevGroup [accelerator @ '':'' @ str_int i]) idx !
                  (j mod length idx)),
            proc_worker_id = j, proc_max_batch_size = b\<rparr>) [0..<length idx * nat w])"
      using lifespan_processes [of "LitServer accelerator (DeviceList (map DeviceIndex idx)) w t b"
          "map (\<lambda>i. DevGroup [accelerator @ '':'' @ str_int i]) idx"]
        init_devices_list [OF assms, of idx]
      by (simp add: LitServer_def)
    also have "\<dots> = Inr (map (\<lambda>j. \<lparr>proc_device =
          DevStr (accelerator @ '':'' @ str_int (idx ! (j mod length idx))),
          proc_worker_id = j, proc_max_batch_size = b\<rparr>) [0..<length idx * nat w])"
      using pos by (simp add: device_len_def device_first_def)
    finally show ?thesis .
  qed
  have once: "run_process lit_api self p fuel s = Inr s' \<longrightarrow>
      (\<exists>cs. call_log s' = call_log s @ CSetup (proc_device p) # cs \<and>
            list_all (\<lambda>c. \<not> is_setup c) cs)"
    unfolding run_process_def by (blast dest: inference_worker_setup_once)
  show ?thesis
    using init_devices_cpu init_devices_count [OF assms] init_devices_list [OF assms]
      cpu count list once
    by blast
qed

lemma run_first_replica:
  "run_process SimpleLitAPI None
     \<lparr>proc_device = DevStr ''cpu'', proc_worker_id = 0, proc_max_batch_size = 1\<rparr>
     (Suc 0) queued_state =
   Inr (queued_state
          \<lparr>request_queue := [],
           request_buffer := Map.empty,
           call_log :=
             [CSetup (DevStr ''cpu''), CDecode (RequestData square_request),
              CPredict (PFloat 4), CEncode (PFloat 16),
              CSend 99 (PDict [(''output'', PFloat 16)])],
           pipes := (pipes queued_state)(99 := Open [PDict [(''output'', PFloat 16)]])\<rparr>)"
  by (simp add: run_process_def inference_worker_def single_loop_body_def queue_get_def
      buffer_pop_def SimpleLitAPI_def request_input_def call_model_def py_square_def
      encode_output_def send_suppress_def send_def log_call_def queued_state_eq
      square_request_def initial_state_simps)

theorem replicas_per_device_witness:
  "(''cuda'' = ''cuda'' \<or> ''cuda'' = ''gpu'') \<and>
   lifespan cpu_server =
     Inr [\<lparr>proc_device = DevStr ''cpu'', proc_worker_id = 0, proc_max_batch_size = 1\<rparr>,
          \<lparr>proc_device = DevStr ''cpu'', proc_worker_id = 1, proc_max_batch_size = 1\<rparr>] \<and>
   lifespan cuda_server =
     Inr [\<lparr>proc_device = DevStr ''cuda:1'', proc_worker_id = 0, proc_max_batch_size = 1\<rparr>,
          \<lparr>proc_device = DevStr ''cuda:2'', proc_worker_id = 1, proc_max_batch_size = 1\<rparr>,
          \<lparr>proc_device = DevStr ''cuda:1'', proc_worker_id = 2, proc_max_batch_size = 1\<rparr>,
          \<lparr>proc_device = DevStr ''cuda:2'', proc_worker_id = 3, proc_max_batch_size = 1\<rparr>] \<and>
   (case run_process SimpleLitAPI None
           \<lparr>proc_device = DevStr ''cpu'', proc_worker_id = 0, proc_max_batch_size = 1\<rparr>
           (Suc 0) queued_state of
      Inl e \<Rightarrow> False
    | Inr s' \<Rightarrow>
        call_log s' =
          call_log queued_state @
          CSetup (DevStr ''cpu'') #
          [CDecode (RequestData square_request), CPredict (PFloat 4), CEncode (PFloat 16),
           CSend 99 (PDict [(''output'', PFloat 16)])])"
proof -
  have acc: "''cuda'' = ''cuda'' \<or> ''cuda'' = ''gpu''" by simp
  let ?p = "\<lparr>proc_device = DevStr ''cpu'', proc_worker_id = 0, proc_max_batch_size = 1\<rparr>"
  let ?s' = "queued_state
          \<lparr>request_queue := [],
           request_buffer := Map.empty,
           call_log :=
             [CSetup (DevStr ''cpu''), CDecode (RequestData square_request),
              CPredict (PFloat 4), CEncode (PFloat 16),
              CSend 99 (PDict [(''output'', PFloat 16)])],
           pipes := (pipes queued_state)(99 := Open [PDict [(''output'', PFloat 16)]])\<rparr>"
  note th = replicas_per_device [OF acc, of "DeviceCount 1" 1 "[1, 2]" 2 30 1
      SimpleLitAPI None ?p "Suc 0" queued_state ?s']
  have two: "[0..<nat 2] = [0, 1]" by code_simp
  have four: "[0..<length [1, 2 :: int] * nat 2] = [0, 1, 2, 3]" by code_simp
  have names: "str_int 1 = ''1''" "str_int 2 = ''2''" by code_simp+
  have mods: "(2::nat) mod Suc (Suc 0) = 0" "(3::nat) mod Suc (Suc 0) = 1" by code_simp+
  have "lifespan (LitServer ''cpu'' (DeviceCount 1) 2 30 1) =
      Inr (map (\<lambda>j. \<lparr>proc_device = DevStr ''cpu'', proc_worker_id = j,
                      proc_max_batch_size = 1\<rparr>) [0..<nat 2])"
    using th by blast
  then have cpu: "lifespan cpu_server =
      Inr [\<lparr>proc_device = DevStr ''cpu'', proc_worker_id = 0, proc_max_batch_size = 1\<rparr>,
           \<lparr>proc_device = DevStr ''cpu'', proc_worker_id = 1, proc_max_batch_size = 1\<rparr>]"
    unfolding two cpu_server_def by simp
  have "lifespan (LitServer ''cuda'' (DeviceList (map DeviceIndex [1, 2])) 2 30 1) =
      Inr (map (\<lambda>j. \<lparr>proc_device =
                        DevStr (''cuda'' @ '':'' @ str_int ([1, 2] ! (j mod length [1, 2 :: int]))),
                      proc_worker_id = j, proc_max_batch_size = 1\<rparr>)
             [0..<length [1, 2 :: int] * nat 2])"
    using th by blast
  then have cuda: "lifespan cuda_server =
      Inr [\<lparr>proc_device = DevStr ''cuda:1'', proc_worker_id = 0, proc_max_batch_size = 1\<rparr>,
           \<lparr>proc_device = DevStr ''cuda:2'', proc_worker_id = 1, proc_max_batch_size = 1\<rparr>,
           \<lparr>proc_device = DevStr ''cuda:1'', proc_worker_id = 2, proc_max_batch_size = 1\<rparr>,
           \<lparr>proc_device = DevStr ''cuda:2'', proc_worker_id = 3, proc_max_batch_size = 1\<rparr>]"
    unfolding four cuda_server_def by (simp add: names mods)
  have log: "call_log queued_state = []"
    by (simp add: queued_state_eq initial_state_simps)
  show ?thesis
    using acc cpu cuda by (simp add: run_first_replica log)
qed



end
